theory Spec2Isabelle
  imports Main "HOL-Library.Word"
begin

unbundle bit_operations_syntax

section \<open>Host primitives\<close>

text \<open>
  The functions of this section are not code of the repository: they are the parts of the
  JavaScript host that the repository's code calls (number formatting, \<^verbatim>\<open>parseInt\<close>,
  \<^verbatim>\<open>Buffer\<close>). Strings are lists of characters, one character per byte of the UTF-8
  text.
\<close>

text \<open>\<^verbatim>\<open>Number.prototype.toString()\<close> on an integral number: its decimal digits.\<close>

definition digit_char :: "nat \<Rightarrow> char" where
  "digit_char d = ''0123456789'' ! d"

fun dec_digits :: "nat \<Rightarrow> string" where
  "dec_digits n =
     (if n < 10 then [digit_char n] else dec_digits (n div 10) @ [digit_char (n mod 10)])"

declare dec_digits.simps [simp del]

definition Number_toString :: "int \<Rightarrow> string" where
  "Number_toString n = (if n < 0 then CHR ''-'' # dec_digits (nat (- n)) else dec_digits (nat n))"

text \<open>\<^verbatim>\<open>parseInt(s, 10)\<close> on a decimal literal with an optional minus sign.\<close>

definition digit_value :: "char \<Rightarrow> nat" where
  "digit_value c = of_char c - 48"

definition dec_value :: "string \<Rightarrow> nat" where
  "dec_value s = foldl (\<lambda>acc c. 10 * acc + digit_value c) 0 s"

definition parseInt :: "string \<Rightarrow> int" where
  "parseInt s = (case s of
       [] \<Rightarrow> 0
     | c # cs \<Rightarrow> if c = CHR ''-'' then - int (dec_value cs) else int (dec_value s))"

text \<open>
  The idiom \<^verbatim>\<open>typeof options.x === 'boolean' ? options.x : d\<close> of \<^verbatim>\<open>bson.ts\<close>: an
  optional field is an \<open>option\<close>, read with its default.
\<close>

definition or_default :: "'a option \<Rightarrow> 'a \<Rightarrow> 'a" where
  "or_default x d = (case x of Some v \<Rightarrow> v | None \<Rightarrow> d)"

text \<open>
  A \<^verbatim>\<open>Buffer\<close> is a byte array of fixed length. \<^verbatim>\<open>Buffer.alloc(n)\<close> is zero-filled. An
  indexed store past the end is dropped, so writing a run of bytes keeps the length and
  loses what does not fit; \<^verbatim>\<open>source.copy(target, targetStart, sourceStart, sourceEnd)\<close>
  copies as many bytes of the source range as the target has room for.
\<close>

type_synonym byte = "8 word"

type_synonym Buffer = "byte list"

definition Buffer_alloc :: "nat \<Rightarrow> Buffer" where
  "Buffer_alloc n = replicate n 0"

definition Buffer_write :: "Buffer \<Rightarrow> nat \<Rightarrow> byte list \<Rightarrow> Buffer" where
  "Buffer_write buf at bs = take at buf @ take (length buf - at) bs @ drop (at + length bs) buf"

definition Buffer_copy :: "Buffer \<Rightarrow> Buffer \<Rightarrow> nat \<Rightarrow> nat \<Rightarrow> nat \<Rightarrow> Buffer" where
  "Buffer_copy source target targetStart sourceStart sourceEnd =
     Buffer_write target targetStart (take (sourceEnd - sourceStart) (drop sourceStart source))"

text \<open>Little-endian bytes of a machine word, and back.\<close>

primrec le_bytes :: "nat \<Rightarrow> 'a::len word \<Rightarrow> byte list" where
  "le_bytes 0 w = []"
| "le_bytes (Suc k) w = ucast w # le_bytes k (drop_bit 8 w)"

primrec le_word :: "byte list \<Rightarrow> 'a::len word" where
  "le_word [] = 0"
| "le_word (b # bs) = ucast b OR push_bit 8 (le_word bs)"

definition byte_of_char :: "char \<Rightarrow> byte" where
  "byte_of_char c = word_of_nat (of_char c)"

definition char_of_byte :: "byte \<Rightarrow> char" where
  "char_of_byte b = char_of (unat b)"

section \<open>Extended JSON of Int32, MinKey and MaxKey\<close>

text \<open>
  The classes \<^verbatim>\<open>Int32\<close>, \<^verbatim>\<open>MinKey\<close> and \<^verbatim>\<open>MaxKey\<close> of the sources. An Extended-JSON
  result is a number or an object; \<^verbatim>\<open>EJSONOptions\<close> is declared in a file that is not part
  of the sources, and only its optional field \<^verbatim>\<open>relaxed\<close> is read.
\<close>

datatype json = JNumber int | JString string | JObject "(string \<times> json) list"

record EJSONOptions =
  relaxed :: "bool option"

record Int32 =
  value' :: int

text \<open>The constructor stores \<^verbatim>\<open>+value | 0\<close>: the number wrapped to a signed 32-bit integer.\<close>

definition Int32_new :: "int \<Rightarrow> Int32" where
  "Int32_new v = \<lparr>value' = sint (word_of_int v :: 32 word)\<rparr>"

definition Int32_toExtendedJSON :: "Int32 \<Rightarrow> EJSONOptions option \<Rightarrow> json" where
  "Int32_toExtendedJSON this options =
     (if (case options of None \<Rightarrow> False | Some opts \<Rightarrow> or_default (relaxed opts) False)
      then JNumber (value' this)
      else JObject [(''$numberInt'', JString (Number_toString (value' this)))])"

text \<open>
  \<^verbatim>\<open>fromExtendedJSON\<close> reads the field \<^verbatim>\<open>$numberInt\<close>, a string: with \<^verbatim>\<open>parseInt\<close> in relaxed
  mode, and otherwise with the constructor, whose \<^verbatim>\<open>+value\<close> reads a decimal literal as
  \<^verbatim>\<open>parseInt\<close> does.
\<close>

definition Int32_fromExtendedJSON :: "string \<Rightarrow> EJSONOptions option \<Rightarrow> int + Int32" where
  "Int32_fromExtendedJSON numberInt options =
     (if (case options of None \<Rightarrow> False | Some opts \<Rightarrow> or_default (relaxed opts) False)
      then Inl (parseInt numberInt)
      else Inr (Int32_new (parseInt numberInt)))"

record MinKey =
  bsontype :: string

record MaxKey =
  bsontype :: string

definition MinKey_new :: MinKey where
  "MinKey_new = \<lparr>MinKey.bsontype = ''MinKey''\<rparr>"

definition MaxKey_new :: MaxKey where
  "MaxKey_new = \<lparr>MaxKey.bsontype = ''MaxKey''\<rparr>"

definition MinKey_toExtendedJSON :: "MinKey \<Rightarrow> json" where
  "MinKey_toExtendedJSON this = JObject [(''$minKey'', JNumber 1)]"

definition MaxKey_toExtendedJSON :: "MaxKey \<Rightarrow> json" where
  "MaxKey_toExtendedJSON this = JObject [(''$maxKey'', JNumber 1)]"

section \<open>Long and Timestamp\<close>

text \<open>
  Modelled from the spec: the class \<^verbatim>\<open>Long\<close> (the spec's WideInt64) is imported by
  \<^verbatim>\<open>bson.ts\<close> from a file that is not part of the sources. The spec gives it as two 32-bit
  halves and an \<^verbatim>\<open>unsigned\<close> flag that decides display and comparison, not storage.
\<close>

record Long =
  low :: "32 word"
  high :: "32 word"
  unsigned :: bool

text \<open>
  Modelled from the spec: construction of a \<^verbatim>\<open>Long\<close> from a pair of halves; a half outside
  32 bits wraps around.
\<close>

definition Long_new :: "int \<Rightarrow> int \<Rightarrow> bool \<Rightarrow> Long" where
  "Long_new lo hi u = \<lparr>low = word_of_int lo, high = word_of_int hi, unsigned = u\<rparr>"

text \<open>Modelled from the spec: the 64-bit pattern of a \<^verbatim>\<open>Long\<close>, high half above low half.\<close>

definition Long_bits :: "Long \<Rightarrow> 64 word" where
  "Long_bits l = push_bit 32 (ucast (high l)) OR ucast (low l)"

text \<open>Modelled from the spec: \<^verbatim>\<open>Long.MAX_UNSIGNED_VALUE\<close>, all 64 bits set.\<close>

definition Long_MAX_UNSIGNED_VALUE :: Long where
  "Long_MAX_UNSIGNED_VALUE = \<lparr>low = - 1, high = - 1, unsigned = True\<rparr>"

text \<open>
  Modelled from the spec: the integer a \<^verbatim>\<open>Long\<close> stands for: its bit pattern read as
  unsigned when the flag is set, as two's complement otherwise.
\<close>

definition Long_toNumber :: "Long \<Rightarrow> int" where
  "Long_toNumber l = (if unsigned l then uint (Long_bits l) else sint (Long_bits l))"

text \<open>Modelled from the spec: \<^verbatim>\<open>Long.toString()\<close>, the exact decimal rendering.\<close>

definition Long_toString :: "Long \<Rightarrow> string" where
  "Long_toString l = Number_toString (Long_toNumber l)"

text \<open>
  Modelled from the spec: the class \<^verbatim>\<open>Timestamp\<close> is not part of the sources (only its
  tests are). A Timestamp is a \<^verbatim>\<open>Long\<close> made of 32-bit seconds \<^verbatim>\<open>t\<close> (the high half) and a
  32-bit ordinal \<^verbatim>\<open>i\<close> (the low half). The tests construct it with no argument, from a pair
  \<^verbatim>\<open>{t, i}\<close> and from a \<^verbatim>\<open>Long\<close> (a Timestamp is one); inputs out of range wrap around.
\<close>

datatype timestamp_source = NoArgument | TimeIncrement int int | FromLong Long

definition Timestamp_new :: "timestamp_source \<Rightarrow> Long" where
  "Timestamp_new src = (case src of
       NoArgument \<Rightarrow> Long_new 0 0 True
     | TimeIncrement t i \<Rightarrow> Long_new i t True
     | FromLong l \<Rightarrow> \<lparr>low = low l, high = high l, unsigned = True\<rparr>)"

text \<open>Modelled from the spec: \<^verbatim>\<open>Timestamp.MAX_VALUE\<close>, the closed upper bound of Timestamp.\<close>

definition Timestamp_MAX_VALUE :: Long where
  "Timestamp_MAX_VALUE = Long_MAX_UNSIGNED_VALUE"

text \<open>Modelled from the spec: \<^verbatim>\<open>Timestamp.toJSON()\<close>, the decimal string under \<^verbatim>\<open>$timestamp\<close>.\<close>

definition Timestamp_toJSON :: "Long \<Rightarrow> json" where
  "Timestamp_toJSON this = JObject [(''$timestamp'', JString (Long_toString this))]"

section \<open>The value model\<close>

text \<open>
  Modelled from the spec: the closed union of value kinds of the spec's data model; the
  classes behind it are imported by \<^verbatim>\<open>bson.ts\<close> from files that are not part of the
  sources. A Double is its IEEE 754 bit pattern, a Decimal128 its raw 128 bits, an ObjectId
  its 12 bytes (the first byte the most significant), a DateTime its milliseconds, a
  Document a list of entries in insertion order. \<open>Function\<close> is a function-typed value of
  the host, which the serializer skips or writes as JavaScriptCode.
\<close>

datatype bson_value =
    Double "64 word"
  | String string
  | Document "(string \<times> bson_value) list"
  | Array "bson_value list"
  | Binary byte "byte list"
  | Undefined
  | ObjectId "96 word"
  | Boolean bool
  | DateTime "64 word"
  | Null
  | RegExp string string
  | DBPointer string "96 word"
  | JavaScriptCode string "(string \<times> bson_value) list option"
  | Symbol string
  | Int32 "32 word"
  | Timestamp Long
  | WideInt64 Long
  | Decimal128 "128 word"
  | MinKey
  | MaxKey
  | Function string

type_synonym document = "(string \<times> bson_value) list"

text \<open>Modelled from the spec: the error names of the spec and the classes it sorts them into.\<close>

datatype error =
  InvalidKey | CyclicStructure | TruncatedDocument | UnknownBSONType | BadLengthPrefix

datatype error_class = MalformedInput | InvalidValue | StructuralError

fun error_class_of :: "error \<Rightarrow> error_class" where
  "error_class_of InvalidKey = InvalidValue"
| "error_class_of CyclicStructure = StructuralError"
| "error_class_of TruncatedDocument = MalformedInput"
| "error_class_of UnknownBSONType = MalformedInput"
| "error_class_of BadLengthPrefix = MalformedInput"

section \<open>The size calculator\<close>

text \<open>
  Modelled from the spec: \<^verbatim>\<open>calculateObjectSize\<close> of \<^verbatim>\<open>parser/calculate_size\<close>, which is not
  part of the sources. Per entry: one tag byte, the key, a NUL and the payload of the kind;
  a string payload is a 4-byte length, the bytes and a NUL. An omitted entry counts nothing.
  An array is sized as the document of its elements under the keys \<^verbatim>\<open>"0"\<close>, \<^verbatim>\<open>"1"\<close>, ...
\<close>

definition string_size :: "string \<Rightarrow> nat" where
  "string_size s = 4 + length s + 1"

fun calculateElement :: "bool \<Rightarrow> bool \<Rightarrow> string \<Rightarrow> bson_value \<Rightarrow> nat"
  and calculateElements :: "bool \<Rightarrow> bool \<Rightarrow> document \<Rightarrow> nat"
  and calculateArrayElements :: "bool \<Rightarrow> bool \<Rightarrow> nat \<Rightarrow> bson_value list \<Rightarrow> nat"
where
  "calculateElements sf iu [] = 0"
| "calculateElements sf iu ((k, v) # es) = calculateElement sf iu k v + calculateElements sf iu es"
| "calculateArrayElements sf iu i [] = 0"
| "calculateArrayElements sf iu i (v # vs) =
     calculateElement sf iu (dec_digits i) v + calculateArrayElements sf iu (Suc i) vs"
| "calculateElement sf iu k (Double w) = 1 + length k + 1 + 8"
| "calculateElement sf iu k (String s) = 1 + length k + 1 + string_size s"
| "calculateElement sf iu k (Document d) = 1 + length k + 1 + (4 + calculateElements sf iu d + 1)"
| "calculateElement sf iu k (Array vs) =
     1 + length k + 1 + (4 + calculateArrayElements sf iu 0 vs + 1)"
| "calculateElement sf iu k (Binary st bs) = 1 + length k + 1 + (4 + 1 + length bs)"
| "calculateElement sf iu k Undefined = (if iu then 0 else 1 + length k + 1)"
| "calculateElement sf iu k (ObjectId oid) = 1 + length k + 1 + 12"
| "calculateElement sf iu k (Boolean b) = 1 + length k + 1 + 1"
| "calculateElement sf iu k (DateTime w) = 1 + length k + 1 + 8"
| "calculateElement sf iu k Null = 1 + length k + 1"
| "calculateElement sf iu k (RegExp p f) = 1 + length k + 1 + (length p + 1 + (length f + 1))"
| "calculateElement sf iu k (DBPointer ns oid) = 1 + length k + 1 + (string_size ns + 12)"
| "calculateElement sf iu k (JavaScriptCode c None) = 1 + length k + 1 + string_size c"
| "calculateElement sf iu k (JavaScriptCode c (Some scope)) =
     1 + length k + 1 + (4 + string_size c + (4 + calculateElements sf iu scope + 1))"
| "calculateElement sf iu k (Symbol s) = 1 + length k + 1 + string_size s"
| "calculateElement sf iu k (Int32 w) = 1 + length k + 1 + 4"
| "calculateElement sf iu k (Timestamp l) = 1 + length k + 1 + 8"
| "calculateElement sf iu k (WideInt64 l) = 1 + length k + 1 + 8"
| "calculateElement sf iu k (Decimal128 w) = 1 + length k + 1 + 16"
| "calculateElement sf iu k MinKey = 1 + length k + 1"
| "calculateElement sf iu k MaxKey = 1 + length k + 1"
| "calculateElement sf iu k (Function src) = (if sf then 1 + length k + 1 + string_size src else 0)"

text \<open>
  Modelled from the spec: the document's size is the 4-byte length prefix, the entries and
  the closing NUL. The arguments are the ones \<^verbatim>\<open>bson.ts\<close> passes.
\<close>

definition internalCalculateObjectSize :: "document \<Rightarrow> bool \<Rightarrow> bool \<Rightarrow> nat" where
  "internalCalculateObjectSize object serializeFunctions' ignoreUndefined' =
     4 + calculateElements serializeFunctions' ignoreUndefined' object + 1"

section \<open>The serializer\<close>

text \<open>
  Modelled from the spec: \<^verbatim>\<open>checkKeys\<close> rejects a key with a leading \<^verbatim>\<open>$\<close> or an embedded
  \<^verbatim>\<open>.\<close>.
\<close>

definition forbidden_key :: "string \<Rightarrow> bool" where
  "forbidden_key k = ((case k of [] \<Rightarrow> False | c # cs \<Rightarrow> c = CHR ''$'') \<or> CHR ''.'' \<in> set k)"

text \<open>
  Modelled from the spec: the pieces of the binary layout: a NUL-terminated string, a
  little-endian 32-bit length, a length-prefixed string, a framed document (length prefix,
  entries, closing NUL; the length counts all of it), an entry (tag, key, payload), the
  flags of a regular expression in their sorted order, the 12 bytes of an ObjectId, and the
  8 bytes of a \<^verbatim>\<open>Long\<close> (low half first).
\<close>

definition cstring :: "string \<Rightarrow> byte list" where
  "cstring s = map byte_of_char s @ [0]"

definition int32_bytes :: "nat \<Rightarrow> byte list" where
  "int32_bytes n = le_bytes 4 (word_of_nat n :: 32 word)"

definition string_payload :: "string \<Rightarrow> byte list" where
  "string_payload s = int32_bytes (length s + 1) @ cstring s"

definition frame :: "byte list \<Rightarrow> byte list" where
  "frame body = int32_bytes (4 + length body + 1) @ body @ [0]"

definition element :: "byte \<Rightarrow> string \<Rightarrow> byte list \<Rightarrow> byte list" where
  "element tag k payload = tag # cstring k @ payload"

definition sort_flags :: "string \<Rightarrow> string" where
  "sort_flags f = sort_key (of_char :: char \<Rightarrow> nat) f"

definition objectid_bytes :: "96 word \<Rightarrow> byte list" where
  "objectid_bytes oid = rev (le_bytes 12 oid)"

definition long_bytes :: "Long \<Rightarrow> byte list" where
  "long_bytes l = le_bytes 4 (low l) @ le_bytes 4 (high l)"

text \<open>
  Modelled from the spec: the entries of \<^verbatim>\<open>serializeInto\<close> of \<^verbatim>\<open>parser/serializer\<close>, which
  is not part of the sources, by the spec's layout table. Entries are written in insertion
  order; with \<^verbatim>\<open>checkKeys\<close> a forbidden key fails with \<open>InvalidKey\<close> when its entry is
  reached; an Undefined entry is omitted under \<^verbatim>\<open>ignoreUndefined\<close>, a function is written as
  JavaScriptCode under \<^verbatim>\<open>serializeFunctions\<close> and omitted otherwise; an array is written as
  the document of its elements under the keys \<^verbatim>\<open>"0"\<close>, \<^verbatim>\<open>"1"\<close>, ...
\<close>

fun serializeElement :: "bool \<Rightarrow> bool \<Rightarrow> bool \<Rightarrow> string \<Rightarrow> bson_value \<Rightarrow> error + byte list"
  and serializeElements :: "bool \<Rightarrow> bool \<Rightarrow> bool \<Rightarrow> document \<Rightarrow> error + byte list"
  and serializeArrayElements ::
    "bool \<Rightarrow> bool \<Rightarrow> bool \<Rightarrow> nat \<Rightarrow> bson_value list \<Rightarrow> error + byte list"
where
  "serializeElements ck sf iu [] = Inr []"
| "serializeElements ck sf iu ((k, v) # es) =
     (if ck \<and> forbidden_key k then Inl InvalidKey
      else case serializeElement ck sf iu k v of
             Inl e \<Rightarrow> Inl e
           | Inr bs \<Rightarrow> (case serializeElements ck sf iu es of
                          Inl e \<Rightarrow> Inl e
                        | Inr rest \<Rightarrow> Inr (bs @ rest)))"
| "serializeArrayElements ck sf iu i [] = Inr []"
| "serializeArrayElements ck sf iu i (v # vs) =
     (case serializeElement ck sf iu (dec_digits i) v of
        Inl e \<Rightarrow> Inl e
      | Inr bs \<Rightarrow> (case serializeArrayElements ck sf iu (Suc i) vs of
                     Inl e \<Rightarrow> Inl e
                   | Inr rest \<Rightarrow> Inr (bs @ rest)))"
| "serializeElement ck sf iu k (Double w) = Inr (element 0x01 k (le_bytes 8 w))"
| "serializeElement ck sf iu k (String s) = Inr (element 0x02 k (string_payload s))"
| "serializeElement ck sf iu k (Document d) =
     (case serializeElements ck sf iu d of
        Inl e \<Rightarrow> Inl e
      | Inr body \<Rightarrow> Inr (element 0x03 k (frame body)))"
| "serializeElement ck sf iu k (Array vs) =
     (case serializeArrayElements ck sf iu 0 vs of
        Inl e \<Rightarrow> Inl e
      | Inr body \<Rightarrow> Inr (element 0x04 k (frame body)))"
| "serializeElement ck sf iu k (Binary st bs) =
     Inr (element 0x05 k (int32_bytes (length bs) @ st # bs))"
| "serializeElement ck sf iu k Undefined = Inr (if iu then [] else element 0x06 k [])"
| "serializeElement ck sf iu k (ObjectId oid) = Inr (element 0x07 k (objectid_bytes oid))"
| "serializeElement ck sf iu k (Boolean b) = Inr (element 0x08 k [if b then 1 else 0])"
| "serializeElement ck sf iu k (DateTime w) = Inr (element 0x09 k (le_bytes 8 w))"
| "serializeElement ck sf iu k Null = Inr (element 0x0A k [])"
| "serializeElement ck sf iu k (RegExp p f) =
     Inr (element 0x0B k (cstring p @ cstring (sort_flags f)))"
| "serializeElement ck sf iu k (DBPointer ns oid) =
     Inr (element 0x0C k (string_payload ns @ objectid_bytes oid))"
| "serializeElement ck sf iu k (JavaScriptCode c None) = Inr (element 0x0D k (string_payload c))"
| "serializeElement ck sf iu k (JavaScriptCode c (Some scope)) =
     (case serializeElements ck sf iu scope of
        Inl e \<Rightarrow> Inl e
      | Inr body \<Rightarrow>
          Inr (element 0x0F k
                (int32_bytes (4 + length (string_payload c) + length (frame body))
                 @ string_payload c @ frame body)))"
| "serializeElement ck sf iu k (Symbol s) = Inr (element 0x0E k (string_payload s))"
| "serializeElement ck sf iu k (Int32 w) = Inr (element 0x10 k (le_bytes 4 w))"
| "serializeElement ck sf iu k (Timestamp l) = Inr (element 0x11 k (long_bytes l))"
| "serializeElement ck sf iu k (WideInt64 l) = Inr (element 0x12 k (long_bytes l))"
| "serializeElement ck sf iu k (Decimal128 w) = Inr (element 0x13 k (le_bytes 16 w))"
| "serializeElement ck sf iu k MinKey = Inr (element 0xFF k [])"
| "serializeElement ck sf iu k MaxKey = Inr (element 0x7F k [])"
| "serializeElement ck sf iu k (Function src) =
     Inr (if sf then element 0x0D k (string_payload src) else [])"

text \<open>Modelled from the spec: the bytes of a whole document, framed.\<close>

definition serializeDocument :: "bool \<Rightarrow> bool \<Rightarrow> bool \<Rightarrow> document \<Rightarrow> error + byte list" where
  "serializeDocument ck sf iu d =
     (case serializeElements ck sf iu d of Inl e \<Rightarrow> Inl e | Inr body \<Rightarrow> Inr (frame body))"

text \<open>
  Modelled from the spec: \<^verbatim>\<open>serializeInto\<close>, with the arguments \<^verbatim>\<open>bson.ts\<close> passes (the
  buffer, the document, \<^verbatim>\<open>checkKeys\<close>, the start offset, the depth and the two flags). It
  writes the document into the buffer at the start offset and returns the end offset, or
  fails. The buffer is the caller's object, written in place: the result carries it. The
  spec does not say which bytes a failed pass has written; the model leaves the buffer as
  it was, and nothing below depends on its contents after a failure. The ancestor path
  plays no part for a document given as a tree, where no object is its own ancestor; it is
  modelled with the object graphs of the last section.
\<close>

definition serializeInto ::
  "Buffer \<Rightarrow> document \<Rightarrow> bool \<Rightarrow> nat \<Rightarrow> nat \<Rightarrow> bool \<Rightarrow> bool \<Rightarrow> Buffer \<times> (error + nat)" where
  "serializeInto buf object checkKeys' startingIndex depth serializeFunctions' ignoreUndefined' =
     (case serializeDocument checkKeys' serializeFunctions' ignoreUndefined' object of
        Inl e \<Rightarrow> (buf, Inl e)
      | Inr bs \<Rightarrow> (Buffer_write buf startingIndex bs, Inr (startingIndex + length bs)))"

section \<open>The entry points of bson.ts\<close>

text \<open>
  The module keeps one internal serialization buffer: the state. The options are records of
  optional fields; \<^verbatim>\<open>CalculateObjectSizeOptions\<close> picks two fields of
  \<^verbatim>\<open>SerializationOptions\<close>, which is declared in \<^verbatim>\<open>parser/serializer\<close>, with the fields
  \<^verbatim>\<open>bson.ts\<close> reads. Sizes and indices are natural numbers.
\<close>

record CalculateObjectSizeOptions =
  serializeFunctions :: "bool option"
  ignoreUndefined :: "bool option"

record SerializationOptions = CalculateObjectSizeOptions +
  checkKeys :: "bool option"
  minInternalBufferSize :: "nat option"
  index :: "nat option"

record bson_state =
  buffer :: Buffer

definition MAXSIZE :: nat where
  "MAXSIZE = 1024 * 1024 * 17"

definition initial_state :: bson_state where
  "initial_state = \<lparr>buffer = Buffer_alloc MAXSIZE\<rparr>"

definition setInternalBufferSize :: "nat \<Rightarrow> bson_state \<Rightarrow> bson_state" where
  "setInternalBufferSize size' st =
     (if length (buffer st) < size' then st\<lparr>buffer := Buffer_alloc size'\<rparr> else st)"

text \<open>
  \<^verbatim>\<open>serialize\<close> and \<^verbatim>\<open>serializeWithBufferAndIndex\<close>, with the call
  \<^verbatim>\<open>internalSerialize(buffer, object, checkKeys, 0, 0, serializeFunctions, ignoreUndefined)\<close>
  as a parameter applied to the buffer and the unpacked options: the same bodies serve the
  documents given as trees and the object graphs of the last section. The results carry
  the state, for \<^verbatim>\<open>serializeWithBufferAndIndex\<close> also the caller's buffer, and the returned
  value or the error thrown.
\<close>

type_synonym internal_serializer =
  "Buffer \<Rightarrow> bool \<Rightarrow> nat \<Rightarrow> nat \<Rightarrow> bool \<Rightarrow> bool \<Rightarrow> Buffer \<times> (error + nat)"

definition serialize_with ::
  "internal_serializer \<Rightarrow> bson_state \<Rightarrow> SerializationOptions \<Rightarrow> bson_state \<times> (error + Buffer)" where
  "serialize_with internalSerialize st options =
     (let checkKeys' = or_default (checkKeys options) False;
          serializeFunctions' = or_default (serializeFunctions options) False;
          ignoreUndefined' = or_default (ignoreUndefined options) True;
          minInternalBufferSize' = or_default (minInternalBufferSize options) MAXSIZE;
          buffer0 = (if length (buffer st) < minInternalBufferSize'
                     then Buffer_alloc minInternalBufferSize' else buffer st)
      in case internalSerialize buffer0 checkKeys' 0 0 serializeFunctions' ignoreUndefined' of
           (buffer1, Inl e) \<Rightarrow> (st\<lparr>buffer := buffer1\<rparr>, Inl e)
         | (buffer1, Inr serializationIndex) \<Rightarrow>
             (let finishedBuffer = Buffer_alloc serializationIndex
              in (st\<lparr>buffer := buffer1\<rparr>,
                  Inr (Buffer_copy buffer1 finishedBuffer 0 0 (length finishedBuffer)))))"

definition serialize ::
  "bson_state \<Rightarrow> document \<Rightarrow> SerializationOptions \<Rightarrow> bson_state \<times> (error + Buffer)" where
  "serialize st object options = serialize_with (\<lambda>buf. serializeInto buf object) st options"

definition serializeWithBufferAndIndex_with ::
  "internal_serializer \<Rightarrow> bson_state \<Rightarrow> Buffer \<Rightarrow> SerializationOptions
     \<Rightarrow> bson_state \<times> Buffer \<times> (error + int)" where
  "serializeWithBufferAndIndex_with internalSerialize st finalBuffer options =
     (let checkKeys' = or_default (checkKeys options) False;
          serializeFunctions' = or_default (serializeFunctions options) False;
          ignoreUndefined' = or_default (ignoreUndefined options) True;
          startIndex = or_default (index options) 0
      in case internalSerialize (buffer st) checkKeys' 0 0 serializeFunctions' ignoreUndefined' of
           (buffer1, Inl e) \<Rightarrow> (st\<lparr>buffer := buffer1\<rparr>, finalBuffer, Inl e)
         | (buffer1, Inr serializationIndex) \<Rightarrow>
             (st\<lparr>buffer := buffer1\<rparr>,
              Buffer_copy buffer1 finalBuffer startIndex 0 serializationIndex,
              Inr (int startIndex + int serializationIndex - 1)))"

definition serializeWithBufferAndIndex ::
  "bson_state \<Rightarrow> document \<Rightarrow> Buffer \<Rightarrow> SerializationOptions
     \<Rightarrow> bson_state \<times> Buffer \<times> (error + int)" where
  "serializeWithBufferAndIndex st object finalBuffer options =
     serializeWithBufferAndIndex_with (\<lambda>buf. serializeInto buf object) st finalBuffer options"

definition calculateObjectSize :: "document \<Rightarrow> 'a CalculateObjectSizeOptions_scheme \<Rightarrow> nat" where
  "calculateObjectSize object options =
     (let serializeFunctions' = or_default (serializeFunctions options) False;
          ignoreUndefined' = or_default (ignoreUndefined options) True
      in internalCalculateObjectSize object serializeFunctions' ignoreUndefined')"

text \<open>The options object \<^verbatim>\<open>{}\<close>, and the room the internal buffer has during a call.\<close>

definition no_options :: SerializationOptions where
  "no_options = \<lparr>serializeFunctions = None, ignoreUndefined = None, checkKeys = None,
     minInternalBufferSize = None, index = None\<rparr>"

definition capacity :: "bson_state \<Rightarrow> SerializationOptions \<Rightarrow> nat" where
  "capacity st options =
     max (length (buffer st)) (or_default (minInternalBufferSize options) MAXSIZE)"

text \<open>
  The calls that reach the internal buffer, and a run of them from a state. The other
  entry points (\<^verbatim>\<open>deserialize\<close>, \<^verbatim>\<open>calculateObjectSize\<close>, \<^verbatim>\<open>deserializeStream\<close>) do not
  mention the module's buffer.
\<close>

datatype api_call =
    SetInternalBufferSize nat
  | Serialize document SerializationOptions
  | SerializeWithBufferAndIndex document Buffer SerializationOptions

fun api_step :: "bson_state \<Rightarrow> api_call \<Rightarrow> bson_state" where
  "api_step st (SetInternalBufferSize n) = setInternalBufferSize n st"
| "api_step st (Serialize object options) = fst (serialize st object options)"
| "api_step st (SerializeWithBufferAndIndex object finalBuffer options) =
     fst (serializeWithBufferAndIndex st object finalBuffer options)"

section \<open>The deserializer\<close>

text \<open>Modelled from the spec: reading a NUL-terminated string: the bytes before the first NUL,
  and what follows it.\<close>

definition read_cstring :: "byte list \<Rightarrow> (string \<times> byte list) option" where
  "read_cstring bs =
     (if 0 \<in> set bs
      then Some (map char_of_byte (takeWhile (\<lambda>b. b \<noteq> 0) bs), tl (dropWhile (\<lambda>b. b \<noteq> 0) bs))
      else None)"

text \<open>Modelled from the spec: reading a fixed number of bytes.\<close>

definition read_bytes :: "nat \<Rightarrow> byte list \<Rightarrow> (byte list \<times> byte list) option" where
  "read_bytes n bs = (if length bs < n then None else Some (take n bs, drop n bs))"

text \<open>Modelled from the spec: reading a little-endian 32-bit integer, signed.\<close>

definition read_int32 :: "byte list \<Rightarrow> (int \<times> byte list) option" where
  "read_int32 bs =
     (case read_bytes 4 bs of
        None \<Rightarrow> None
      | Some (w, r) \<Rightarrow> Some (sint (le_word w :: 32 word), r))"

text \<open>Modelled from the spec: reading a length-prefixed string; the length counts the closing NUL,
  which must be there.\<close>

definition read_string :: "byte list \<Rightarrow> error + (string \<times> byte list)" where
  "read_string bs =
     (case read_int32 bs of
        None \<Rightarrow> Inl TruncatedDocument
      | Some (n, r) \<Rightarrow>
          if n < 1 then Inl BadLengthPrefix
          else if int (length r) < n then Inl TruncatedDocument
          else if r ! (nat n - 1) \<noteq> 0 then Inl TruncatedDocument
          else Inr (map char_of_byte (take (nat n - 1) r), drop (nat n) r))"

text \<open>Modelled from the spec: cutting a framed document off the front of the bytes: its entries and
  what follows it. A length under 5 is a bad length prefix; a length that runs past the end
  or a missing terminator fails with \<open>TruncatedDocument\<close>.\<close>

definition split_document :: "byte list \<Rightarrow> error + (byte list \<times> byte list)" where
  "split_document bs =
     (case read_int32 bs of
        None \<Rightarrow> Inl TruncatedDocument
      | Some (n, r) \<Rightarrow>
          if n < 5 then Inl BadLengthPrefix
          else if int (length bs) < n then Inl TruncatedDocument
          else if bs ! (nat n - 1) \<noteq> 0 then Inl TruncatedDocument
          else Inr (take (nat n - 5) r, drop (nat n) bs))"

text \<open>Modelled from the spec: reading JavaScriptCode with scope: the total length, the code string
  and the scope document, which together make up the total.\<close>

definition read_code_with_scope :: "byte list \<Rightarrow> error + (string \<times> byte list \<times> byte list)" where
  "read_code_with_scope bs =
     (case read_int32 bs of
        None \<Rightarrow> Inl TruncatedDocument
      | Some (declared, r) \<Rightarrow>
          (case read_string r of
             Inl e \<Rightarrow> Inl e
           | Inr (code, r') \<Rightarrow>
               (case split_document r' of
                  Inl e \<Rightarrow> Inl e
                | Inr (body, rest) \<Rightarrow>
                    if declared = int (4 + string_size code + (4 + length body + 1))
                    then Inr (code, body, rest) else Inl BadLengthPrefix)))"

text \<open>Modelled from the spec: promotion turns a 64-bit integer that fits without loss into a
  plain number, which the value model holds as a Double. \<open>double_of_int\<close> is the IEEE 754
  bit pattern of an integer of magnitude at most \<open>2 ^ 53\<close>: sign, biased exponent and
  fraction.\<close>

fun bit_length :: "nat \<Rightarrow> nat" where
  "bit_length n = (if n = 0 then 0 else Suc (bit_length (n div 2)))"

declare bit_length.simps [simp del]

definition double_of_int :: "int \<Rightarrow> 64 word" where
  "double_of_int n =
     (if n = 0 then 0
      else let m = nat \<bar>n\<bar>;
               e = bit_length m - 1;
               fraction = (m * 2 ^ 52) div 2 ^ e - 2 ^ 52
           in (if n < 0 then push_bit 63 1 else 0)
              OR push_bit 52 (word_of_nat (e + 1023)) OR word_of_nat fraction)"

text \<open>Modelled from the spec: \<^verbatim>\<open>promoteLongs\<close>: a decoded 64-bit integer within the range of
  exactly representable integers becomes a plain number, any other stays wide.\<close>

definition promote_long :: "Long \<Rightarrow> bson_value" where
  "promote_long l =
     (let n = sint (Long_bits l)
      in if - (2 ^ 53) \<le> n \<and> n \<le> 2 ^ 53 then Double (double_of_int n) else WideInt64 l)"

text \<open>Modelled from the spec: the \<^verbatim>\<open>Long\<close> of 8 bytes, low half first.\<close>

definition long_of_bytes :: "byte list \<Rightarrow> bool \<Rightarrow> Long" where
  "long_of_bytes w u = \<lparr>low = le_word (take 4 w), high = le_word (drop 4 w), unsigned = u\<rparr>"

text \<open>Modelled from the spec: decoding the payload of an entry that holds no nested document, by
  its tag, after the layout table. Undefined is write-only: its tag is not read. A tag
  outside the table fails with \<open>UnknownBSONType\<close>.\<close>

definition parse_scalar :: "bool \<Rightarrow> byte \<Rightarrow> byte list \<Rightarrow> error + (bson_value \<times> byte list)" where
  "parse_scalar promote t bs =
     (if t = 0x01 then
        (case read_bytes 8 bs of
           None \<Rightarrow> Inl TruncatedDocument
         | Some (w, r) \<Rightarrow> Inr (Double (le_word w), r))
      else if t = 0x02 then
        (case read_string bs of Inl e \<Rightarrow> Inl e | Inr (s, r) \<Rightarrow> Inr (String s, r))
      else if t = 0x05 then
        (case read_int32 bs of
           None \<Rightarrow> Inl TruncatedDocument
         | Some (n, r) \<Rightarrow>
             if n < 0 then Inl BadLengthPrefix
             else (case r of
                     [] \<Rightarrow> Inl TruncatedDocument
                   | st # r' \<Rightarrow>
                       (case read_bytes (nat n) r' of
                          None \<Rightarrow> Inl TruncatedDocument
                        | Some (content, r'') \<Rightarrow> Inr (Binary st content, r''))))
      else if t = 0x07 then
        (case read_bytes 12 bs of
           None \<Rightarrow> Inl TruncatedDocument
         | Some (w, r) \<Rightarrow> Inr (ObjectId (le_word (rev w)), r))
      else if t = 0x08 then
        (case bs of [] \<Rightarrow> Inl TruncatedDocument | b # r \<Rightarrow> Inr (Boolean (b \<noteq> 0), r))
      else if t = 0x09 then
        (case read_bytes 8 bs of
           None \<Rightarrow> Inl TruncatedDocument
         | Some (w, r) \<Rightarrow> Inr (DateTime (le_word w), r))
      else if t = 0x0A then Inr (Null, bs)
      else if t = 0x0B then
        (case read_cstring bs of
           None \<Rightarrow> Inl TruncatedDocument
         | Some (p, r) \<Rightarrow>
             (case read_cstring r of
                None \<Rightarrow> Inl TruncatedDocument
              | Some (f, r') \<Rightarrow> Inr (RegExp p f, r')))
      else if t = 0x0C then
        (case read_string bs of
           Inl e \<Rightarrow> Inl e
         | Inr (ns, r) \<Rightarrow>
             (case read_bytes 12 r of
                None \<Rightarrow> Inl TruncatedDocument
              | Some (w, r') \<Rightarrow> Inr (DBPointer ns (le_word (rev w)), r')))
      else if t = 0x0D then
        (case read_string bs of Inl e \<Rightarrow> Inl e | Inr (s, r) \<Rightarrow> Inr (JavaScriptCode s None, r))
      else if t = 0x0E then
        (case read_string bs of Inl e \<Rightarrow> Inl e | Inr (s, r) \<Rightarrow> Inr (Symbol s, r))
      else if t = 0x10 then
        (case read_bytes 4 bs of
           None \<Rightarrow> Inl TruncatedDocument
         | Some (w, r) \<Rightarrow> Inr (Int32 (le_word w), r))
      else if t = 0x11 then
        (case read_bytes 8 bs of
           None \<Rightarrow> Inl TruncatedDocument
         | Some (w, r) \<Rightarrow> Inr (Timestamp (long_of_bytes w True), r))
      else if t = 0x12 then
        (case read_bytes 8 bs of
           None \<Rightarrow> Inl TruncatedDocument
         | Some (w, r) \<Rightarrow>
             Inr (if promote then promote_long (long_of_bytes w False)
                  else WideInt64 (long_of_bytes w False), r))
      else if t = 0x13 then
        (case read_bytes 16 bs of
           None \<Rightarrow> Inl TruncatedDocument
         | Some (w, r) \<Rightarrow> Inr (Decimal128 (le_word w), r))
      else if t = 0xFF then Inr (MinKey, bs)
      else if t = 0x7F then Inr (MaxKey, bs)
      else Inl UnknownBSONType)"

text \<open>Modelled from the spec: the entries of \<^verbatim>\<open>deserialize\<close> of \<^verbatim>\<open>parser/deserializer\<close>, which is
  not part of the sources: the bytes between a length prefix and the closing NUL are read
  entry by entry, in order, nested documents, arrays and scopes through their own frames
  with the same options. An array is the values of its entries, in order. Duplicate keys
  stay separate entries.\<close>

function deserializeElements :: "bool \<Rightarrow> byte list \<Rightarrow> error + document" where
  "deserializeElements promote [] = Inr []"
| "deserializeElements promote (t # bs) =
     (case read_cstring bs of
        None \<Rightarrow> Inl TruncatedDocument
      | Some (k, r) \<Rightarrow>
          if t = 0x03 \<or> t = 0x04 then
            (case split_document r of
               Inl e \<Rightarrow> Inl e
             | Inr (body, rest) \<Rightarrow>
                 (case deserializeElements promote body of
                    Inl e \<Rightarrow> Inl e
                  | Inr d \<Rightarrow>
                      (case deserializeElements promote rest of
                         Inl e \<Rightarrow> Inl e
                       | Inr es \<Rightarrow>
                           Inr ((k, if t = 0x03 then Document d else Array (map snd d)) # es))))
          else if t = 0x0F then
            (case read_code_with_scope r of
               Inl e \<Rightarrow> Inl e
             | Inr (code, body, rest) \<Rightarrow>
                 (case deserializeElements promote body of
                    Inl e \<Rightarrow> Inl e
                  | Inr scope \<Rightarrow>
                      (case deserializeElements promote rest of
                         Inl e \<Rightarrow> Inl e
                       | Inr es \<Rightarrow> Inr ((k, JavaScriptCode code (Some scope)) # es))))
          else
            (case parse_scalar promote t r of
               Inl e \<Rightarrow> Inl e
             | Inr (v, rest) \<Rightarrow>
                 (case deserializeElements promote rest of
                    Inl e \<Rightarrow> Inl e
                  | Inr es \<Rightarrow> Inr ((k, v) # es))))"
  by pat_completeness auto
termination
proof -
  have cstr: "length r < length bs" if "read_cstring bs = Some (k, r)" for bs k r
  proof -
    from that have "0 \<in> set bs" and r: "r = tl (dropWhile (\<lambda>b. b \<noteq> 0) bs)"
      by (auto simp: read_cstring_def split: if_splits)
    then have "dropWhile (\<lambda>b. b \<noteq> 0) bs \<noteq> []" by auto
    then have "length r < length (dropWhile (\<lambda>b. b \<noteq> 0) bs)"
      using r by (cases "dropWhile (\<lambda>b. b \<noteq> 0) bs") auto
    also have "\<dots> \<le> length bs" by (rule length_dropWhile_le)
    finally show ?thesis .
  qed
  have i32: "length r \<le> length bs" if "read_int32 bs = Some (n, r)" for bs n r
    using that by (auto simp: read_int32_def read_bytes_def split: if_splits option.splits)
  have str: "length r \<le> length bs" if "read_string bs = Inr (s, r)" for bs s r
    using that i32 by (fastforce simp: read_string_def split: if_splits option.splits)
  have doc: "length body \<le> length bs \<and> length rest \<le> length bs"
    if "split_document bs = Inr (body, rest)" for bs body rest
    using that i32 by (fastforce simp: split_document_def split: if_splits option.splits)
  have cws: "length body \<le> length bs \<and> length rest \<le> length bs"
    if "read_code_with_scope bs = Inr (code, body, rest)" for bs code body rest
  proof -
    from that obtain declared r r' where a: "read_int32 bs = Some (declared, r)"
      and b: "read_string r = Inr (code, r')" and c: "split_document r' = Inr (body, rest)"
      by (auto simp: read_code_with_scope_def split: option.splits sum.splits if_splits)
    from i32 [OF a] str [OF b] doc [OF c] show ?thesis by simp
  qed
  have sc: "length rest \<le> length bs" if "parse_scalar p t bs = Inr (v, rest)" for p t bs v rest
  proof -
    have rb: "length r \<le> length xs" if "read_bytes n xs = Some (w, r)" for n xs w r
      using that by (auto simp: read_bytes_def split: if_splits)
    show ?thesis
      using that
      by (auto simp: parse_scalar_def split: if_splits option.splits sum.splits list.splits
          dest!: rb str i32 cstr)
  qed
  show ?thesis
    apply (relation "measure (\<lambda>(promote, bs). length bs)")
         apply simp
    subgoal for promote t bs x2 x y b xa ya
      using cstr [of bs x y] doc [of y xa ya] by auto
    subgoal for promote t bs x2 x y b xa ya
      using cstr [of bs x y] doc [of y xa ya] by auto
    subgoal for promote t bs x2 x y b xa ya xb yb
      using cstr [of bs x y] cws [of y xa xb yb] by auto
    subgoal for promote t bs x2 x y b xa ya xb yb
      using cstr [of bs x y] cws [of y xa xb yb] by auto
    subgoal for promote t bs x2 x y b xa ya
      using cstr [of bs x y] sc [of promote t y xa ya] by auto
    done
qed


text \<open>
  Modelled from the spec: the options of the deserializer that the value model can express:
  the two promotion flags, the flag of stream framing and the start index. (The options
  that return host objects in place of values of the model are left out.)
\<close>

record DeserializationOptions =
  promoteLongs :: "bool option"
  promoteValues :: "bool option"
  allowObjectSmallerThanBufferSize :: "bool option"
  index :: "int option"

text \<open>
  Modelled from the spec: promotion is on by default and applies when both flags allow it.
\<close>

definition promotes :: "DeserializationOptions \<Rightarrow> bool" where
  "promotes options =
     (or_default (promoteLongs options) True \<and> or_default (promoteValues options) True)"

text \<open>
  Modelled from the spec: \<^verbatim>\<open>deserialize\<close> of \<^verbatim>\<open>parser/deserializer\<close>
  (\<^verbatim>\<open>internalDeserialize\<close> in \<^verbatim>\<open>bson.ts\<close>): it reads the document that starts at the index of
  the options. Unless \<^verbatim>\<open>allowObjectSmallerThanBufferSize\<close> is set, the document must end
  where the buffer ends.
\<close>

definition internalDeserialize :: "Buffer \<Rightarrow> DeserializationOptions \<Rightarrow> error + document" where
  "internalDeserialize buf options =
     (let index' = or_default (DeserializationOptions.index options) 0;
          allow = or_default (allowObjectSmallerThanBufferSize options) False
      in if index' < 0 then Inl TruncatedDocument
         else case split_document (drop (nat index') buf) of
                Inl e \<Rightarrow> Inl e
              | Inr (body, rest) \<Rightarrow>
                  if \<not> allow \<and> rest \<noteq> [] then Inl BadLengthPrefix
                  else deserializeElements (promotes options) body)"

text \<open>
  Modelled from the spec: \<^verbatim>\<open>ensureBuffer\<close> is not part of the sources; on a \<^verbatim>\<open>Buffer\<close> it
  returns its argument.
\<close>

definition ensureBuffer :: "Buffer \<Rightarrow> Buffer" where
  "ensureBuffer b = b"

text \<open>\<^verbatim>\<open>deserialize\<close> of \<^verbatim>\<open>bson.ts\<close>.\<close>

definition deserialize :: "Buffer \<Rightarrow> DeserializationOptions \<Rightarrow> error + document" where
  "deserialize buf options = internalDeserialize (ensureBuffer buf) options"

definition no_deserialization_options :: DeserializationOptions where
  "no_deserialization_options = \<lparr>promoteLongs = None, promoteValues = None,
     allowObjectSmallerThanBufferSize = None, index = None\<rparr>"

section \<open>deserializeStream\<close>

text \<open>
  \<^verbatim>\<open>deserializeStream\<close> of \<^verbatim>\<open>bson.ts\<close>. \<^verbatim>\<open>data[i]\<close> is the byte at \<open>i\<close> as a 32-bit integer, or
  \<^verbatim>\<open>undefined\<close> out of range, which \<^verbatim>\<open>|\<close> and \<^verbatim>\<open><<\<close> read as 0; the size is the signed 32-bit
  result of the four bytes. \<^verbatim>\<open>Object.assign\<close> lets a field of the caller's options replace
  the default. The array of documents is a map from indices: a store past its end
  extends it. The loop runs \<open>numberOfDocuments\<close> times unless the deserializer throws.
\<close>

definition data_at :: "Buffer \<Rightarrow> int \<Rightarrow> 32 word" where
  "data_at data i = (if 0 \<le> i \<and> i < int (length data) then ucast (data ! nat i) else 0)"

definition read_size :: "Buffer \<Rightarrow> int \<Rightarrow> int" where
  "read_size data i =
     sint (data_at data i OR push_bit 8 (data_at data (i + 1))
           OR push_bit 16 (data_at data (i + 2)) OR push_bit 24 (data_at data (i + 3)))"

definition stream_options :: "DeserializationOptions \<Rightarrow> DeserializationOptions" where
  "stream_options options =
     options\<lparr>allowObjectSmallerThanBufferSize :=
               Some (or_default (allowObjectSmallerThanBufferSize options) True),
             index := Some (or_default (DeserializationOptions.index options) 0)\<rparr>"

text \<open>
  The loop and the wrapper take the deserializer that they call as an argument, so that
  what they do can be stated for any deserializer; \<^verbatim>\<open>deserializeStream\<close> is the wrapper
  with the deserializer of the last section.
\<close>

type_synonym internal_deserializer = "Buffer \<Rightarrow> DeserializationOptions \<Rightarrow> error + document"

function deserializeStream_loop ::
  "internal_deserializer \<Rightarrow> Buffer \<Rightarrow> DeserializationOptions \<Rightarrow> nat \<Rightarrow> nat \<Rightarrow> nat
     \<Rightarrow> (nat \<rightharpoonup> document) \<Rightarrow> int \<Rightarrow> (nat \<rightharpoonup> document) \<times> (error + int)" where
  "deserializeStream_loop deserializer data internalOptions numberOfDocuments docStartIndex i
       documents index' =
     (if i < numberOfDocuments then
        (let size' = read_size data index';
             internalOptions' = internalOptions\<lparr>index := Some index'\<rparr>
         in case deserializer data internalOptions' of
              Inl e \<Rightarrow> (documents, Inl e)
            | Inr doc \<Rightarrow>
                deserializeStream_loop deserializer data internalOptions' numberOfDocuments
                  docStartIndex (Suc i) (documents(docStartIndex + i \<mapsto> doc)) (index' + size'))
      else (documents, Inr index'))"
  by pat_completeness auto
termination
  by (relation "measure (\<lambda>(deserializer, data, internalOptions, numberOfDocuments, docStartIndex,
        i, documents, index'). numberOfDocuments - i)") auto

declare deserializeStream_loop.simps [simp del]

definition deserializeStream_with ::
  "internal_deserializer \<Rightarrow> Buffer \<Rightarrow> int \<Rightarrow> nat \<Rightarrow> (nat \<rightharpoonup> document) \<Rightarrow> nat
     \<Rightarrow> DeserializationOptions \<Rightarrow> (nat \<rightharpoonup> document) \<times> (error + int)" where
  "deserializeStream_with deserializer data startIndex numberOfDocuments documents docStartIndex
       options =
     (let internalOptions = stream_options options;
          data' = ensureBuffer data
      in deserializeStream_loop deserializer data' internalOptions numberOfDocuments docStartIndex
           0 documents startIndex)"

definition deserializeStream ::
  "Buffer \<Rightarrow> int \<Rightarrow> nat \<Rightarrow> (nat \<rightharpoonup> document) \<Rightarrow> nat \<Rightarrow> DeserializationOptions
     \<Rightarrow> (nat \<rightharpoonup> document) \<times> (error + int)" where
  "deserializeStream data startIndex numberOfDocuments documents docStartIndex options =
     deserializeStream_with internalDeserialize data startIndex numberOfDocuments documents
       docStartIndex options"

text \<open>
  The frames of a stream: the documents that the deserializer reads one after the other
  from an index, each frame starting where the length prefix of the one before it ends;
  and the length prefixes of the first frames.
\<close>

fun framed ::
  "internal_deserializer \<Rightarrow> Buffer \<Rightarrow> DeserializationOptions \<Rightarrow> int \<Rightarrow> document list \<Rightarrow> bool"
where
  "framed deserializer data internalOptions index' [] = True"
| "framed deserializer data internalOptions index' (d # ds) =
     (deserializer data (internalOptions\<lparr>index := Some index'\<rparr>) = Inr d
      \<and> framed deserializer data internalOptions (index' + read_size data index') ds)"

fun length_prefixes :: "Buffer \<Rightarrow> int \<Rightarrow> nat \<Rightarrow> int list" where
  "length_prefixes data index' 0 = []"
| "length_prefixes data index' (Suc n) =
     read_size data index' # length_prefixes data (index' + read_size data index') n"

section \<open>Object graphs\<close>

text \<open>
  Modelled from the spec: a document handed to the serializer is an object of the host:
  its nested documents and arrays are references, which can be shared and can form a
  cycle. A heap maps the addresses of a finite type to objects; an entry holds a value of
  the value model or a reference. An array object has the entries of its elements under
  the keys \<^verbatim>\<open>"0"\<close>, \<^verbatim>\<open>"1"\<close>, ...
\<close>

datatype 'a js_value = Plain bson_value | Ref 'a

datatype 'a js_object = DocumentObject "(string \<times> 'a js_value) list" | ArrayObject "'a js_value list"

type_synonym 'a heap = "'a \<Rightarrow> 'a js_object"

fun object_entries :: "'a js_object \<Rightarrow> (string \<times> 'a js_value) list" where
  "object_entries (DocumentObject es) = es"
| "object_entries (ArrayObject vs) = zip (map dec_digits [0..<length vs]) vs"

fun object_tag :: "'a js_object \<Rightarrow> byte" where
  "object_tag (DocumentObject es) = 0x03"
| "object_tag (ArrayObject vs) = 0x04"

text \<open>Modelled from the spec: the bytes of the entries in order, or the first failure.\<close>

fun concat_results :: "(error + byte list) list \<Rightarrow> error + byte list" where
  "concat_results [] = Inr []"
| "concat_results (r # rs) =
     (case r of
        Inl e \<Rightarrow> Inl e
      | Inr bs \<Rightarrow> (case concat_results rs of Inl e \<Rightarrow> Inl e | Inr rest \<Rightarrow> Inr (bs @ rest)))"

text \<open>
  Modelled from the spec: \<^verbatim>\<open>serializeInto\<close> on an object of the heap, with the ancestor path
  threaded through the recursive calls: an object that is on the path of its own ancestors
  fails with \<open>CyclicStructure\<close>; otherwise its entries are written as in the serializer
  above, a referenced object through a recursive call with the object added to the path.
\<close>

function serializeObject ::
  "'a::finite heap \<Rightarrow> bool \<Rightarrow> bool \<Rightarrow> bool \<Rightarrow> 'a list \<Rightarrow> 'a \<Rightarrow> error + byte list" where
  "serializeObject h ck sf iu path a =
     (if a \<in> set path then Inl CyclicStructure
      else case concat_results
                  (map (\<lambda>(k, v).
                          if ck \<and> forbidden_key k then Inl InvalidKey
                          else case v of
                                 Plain pv \<Rightarrow> serializeElement ck sf iu k pv
                               | Ref b \<Rightarrow>
                                   (case serializeObject h ck sf iu (a # path) b of
                                      Inl e \<Rightarrow> Inl e
                                    | Inr bs \<Rightarrow> Inr (element (object_tag (h b)) k bs)))
                       (object_entries (h a))) of
             Inl e \<Rightarrow> Inl e
           | Inr body \<Rightarrow> Inr (frame body))"
  by pat_completeness auto
termination
proof (relation "measure (\<lambda>(h, ck, sf, iu, path, a). card (UNIV - set path))")
  show "wf (measure (\<lambda>(h, ck, sf, iu, path, a). card (UNIV - set path)))"
    by simp
next
  fix h :: "'a heap" and ck sf iu :: bool and path :: "'a list" and a :: 'a
    and x :: "string \<times> 'a js_value" and xa :: string and y :: "'a js_value" and x2 :: 'a
  assume "a \<notin> set path"
  then have "UNIV - set (a # path) \<subset> UNIV - set path"
    by auto
  then have "card (UNIV - set (a # path)) < card (UNIV - set path)"
    by (intro psubset_card_mono) simp_all
  then show "((h, ck, sf, iu, a # path, x2), h, ck, sf, iu, path, a)
             \<in> measure (\<lambda>(h, ck, sf, iu, path, a). card (UNIV - set path))"
    by simp
qed

declare serializeObject.simps [simp del]

text \<open>
  Modelled from the spec: \<^verbatim>\<open>serializeInto\<close> with its last argument, the path.
  \<^verbatim>\<open>serialize\<close> passes the empty path; \<^verbatim>\<open>serializeWithBufferAndIndex\<close> passes none, and the
  path starts empty.
\<close>

definition serializeInto_graph ::
  "Buffer \<Rightarrow> 'a::finite heap \<Rightarrow> 'a \<Rightarrow> bool \<Rightarrow> nat \<Rightarrow> nat \<Rightarrow> bool \<Rightarrow> bool \<Rightarrow> 'a list
     \<Rightarrow> Buffer \<times> (error + nat)" where
  "serializeInto_graph buf h object checkKeys' startingIndex depth serializeFunctions'
       ignoreUndefined' path =
     (case serializeObject h checkKeys' serializeFunctions' ignoreUndefined' path object of
        Inl e \<Rightarrow> (buf, Inl e)
      | Inr bs \<Rightarrow> (Buffer_write buf startingIndex bs, Inr (startingIndex + length bs)))"

definition serialize_graph ::
  "bson_state \<Rightarrow> 'a::finite heap \<Rightarrow> 'a \<Rightarrow> SerializationOptions \<Rightarrow> bson_state \<times> (error + Buffer)" where
  "serialize_graph st h object options =
     serialize_with (\<lambda>buf ck si dp sf iu. serializeInto_graph buf h object ck si dp sf iu []) st
       options"

definition serializeWithBufferAndIndex_graph ::
  "bson_state \<Rightarrow> 'a::finite heap \<Rightarrow> 'a \<Rightarrow> Buffer \<Rightarrow> SerializationOptions
     \<Rightarrow> bson_state \<times> Buffer \<times> (error + int)" where
  "serializeWithBufferAndIndex_graph st h object finalBuffer options =
     serializeWithBufferAndIndex_with
       (\<lambda>buf ck si dp sf iu. serializeInto_graph buf h object ck si dp sf iu []) st finalBuffer
       options"

text \<open>
  The references of an object, the edges of a heap, and a heap with a cycle that can be
  reached from an object.
\<close>

definition references :: "'a js_object \<Rightarrow> 'a set" where
  "references obj = {b. \<exists>k. (k, Ref b) \<in> set (object_entries obj)}"

definition edges :: "'a heap \<Rightarrow> ('a \<times> 'a) set" where
  "edges h = {(a, b). b \<in> references (h a)}"

definition cyclic_from :: "'a heap \<Rightarrow> 'a \<Rightarrow> bool" where
  "cyclic_from h root = (\<exists>a. (root, a) \<in> (edges h)\<^sup>* \<and> (a, a) \<in> (edges h)\<^sup>+)"

text \<open>A document of the value model as an object of a heap: no entry is a reference.\<close>

definition plain_heap :: "document \<Rightarrow> unit heap" where
  "plain_heap d = (\<lambda>a. DocumentObject (map (\<lambda>(k, v). (k, Plain v)) d))"

text \<open>
  Two heaps of two objects: one where the array of the document holds the document, and
  one where the document holds the same nested document under two keys.
\<close>

definition looped :: "bool heap" where
  "looped a =
     (if a then DocumentObject [(''a'', Plain (Int32 1)), (''child'', Ref False)]
      else ArrayObject [Ref True])"

definition shared :: "bool heap" where
  "shared a =
     (if a then DocumentObject [(''x'', Ref False), (''y'', Ref False)]
      else DocumentObject [(''a'', Plain (Int32 1))])"

section \<open>Predicates of the properties\<close>

text \<open>
  The documents that are written and read back unchanged, under the promotion flag \<open>p\<close> of
  the reader: no key and no pattern or flags of a regular expression holds a NUL (they are
  NUL-terminated on the wire); the flags of a regular expression are in their sorted order;
  no entry is Undefined (it is omitted or written under a tag that is not read) or a
  function (omitted or read back as JavaScriptCode); a Timestamp carries its unsigned flag
  and a 64-bit integer does not (the flag is not on the wire); and no 64-bit integer is
  promoted to a plain number.
\<close>

definition nul_free :: "string \<Rightarrow> bool" where
  "nul_free s = (CHR 0x00 \<notin> set s)"

definition promoted :: "Long \<Rightarrow> bool" where
  "promoted l = (- (2 ^ 53) \<le> sint (Long_bits l) \<and> sint (Long_bits l) \<le> 2 ^ 53)"

fun supported_value :: "bool \<Rightarrow> bson_value \<Rightarrow> bool"
  and supported_elements :: "bool \<Rightarrow> document \<Rightarrow> bool"
  and supported_items :: "bool \<Rightarrow> bson_value list \<Rightarrow> bool"
where
  "supported_elements p [] = True"
| "supported_elements p ((k, v) # es) =
     (nul_free k \<and> supported_value p v \<and> supported_elements p es)"
| "supported_items p [] = True"
| "supported_items p (v # vs) = (supported_value p v \<and> supported_items p vs)"
| "supported_value p (Document d) = supported_elements p d"
| "supported_value p (Array vs) = supported_items p vs"
| "supported_value p (JavaScriptCode c (Some scope)) = supported_elements p scope"
| "supported_value p Undefined = False"
| "supported_value p (Function src) = False"
| "supported_value p (RegExp pat f) = (nul_free pat \<and> nul_free f \<and> sort_flags f = f)"
| "supported_value p (Timestamp l) = unsigned l"
| "supported_value p (WideInt64 l) = (\<not> unsigned l \<and> \<not> (p \<and> promoted l))"
| "supported_value p v = True"

text \<open>A document with a forbidden key, at any depth.\<close>

fun forbidden_in_value :: "bson_value \<Rightarrow> bool"
  and forbidden_in_elements :: "document \<Rightarrow> bool"
  and forbidden_in_items :: "bson_value list \<Rightarrow> bool"
where
  "forbidden_in_elements [] = False"
| "forbidden_in_elements ((k, v) # es) =
     (forbidden_key k \<or> forbidden_in_value v \<or> forbidden_in_elements es)"
| "forbidden_in_items [] = False"
| "forbidden_in_items (v # vs) = (forbidden_in_value v \<or> forbidden_in_items vs)"
| "forbidden_in_value (Document d) = forbidden_in_elements d"
| "forbidden_in_value (Array vs) = forbidden_in_items vs"
| "forbidden_in_value (JavaScriptCode c (Some scope)) = forbidden_in_elements scope"
| "forbidden_in_value v = False"

text \<open>A chain of documents and arrays nested \<open>2 * n\<close> levels deep.\<close>

fun nested :: "nat \<Rightarrow> document" where
  "nested 0 = [(''leaf'', Int32 1)]"
| "nested (Suc n) = [(''a'', Array [Document (nested n)])]"

text \<open>A document with an entry of every kind that is written and read back.\<close>

definition all_kinds :: document where
  "all_kinds =
     [(''double'', Double 0x4040AAA9930BE0DF),
      (''string'', String ''hello''),
      (''hash'', Document [(''a'', Int32 1), (''b'', Int32 2)]),
      (''array'', Array [Int32 1, Int32 2, Int32 3]),
      (''binary'', Binary 0 [49, 50, 51]),
      (''oid'', ObjectId 0x4B62BEA15AD9120000010000),
      (''boolean'', Boolean True),
      (''date'', DateTime 1264762529),
      (''null'', Null),
      (''regexp'', RegExp ''foobar'' ''im''),
      (''pointer'', DBPointer ''db.coll'' 0x4B62BEA15AD9120000010000),
      (''code'', JavaScriptCode ''this.x == 3'' None),
      (''where'', JavaScriptCode ''this.x == 3'' (Some [(''x'', Int32 3)])),
      (''symbol'', Symbol ''sym''),
      (''int'', Int32 42),
      (''timestamp'', Timestamp (Timestamp_new (TimeIncrement 1 2))),
      (''long'', WideInt64 (Long_new 0 0x7fffffff False)),
      (''decimal'', Decimal128 1),
      (''min'', MinKey),
      (''max'', MaxKey),
      (''$ref'', String ''a.b'')]"

section \<open>Long\<close>

lemma Long_bits_MAX_UNSIGNED_VALUE: "Long_bits Long_MAX_UNSIGNED_VALUE = - 1"
  unfolding Long_bits_def Long_MAX_UNSIGNED_VALUE_def
  by (rule bit_word_eqI) (auto simp: bit_simps)

section \<open>Decimal digits\<close>

lemma digit_value_digit_char: "d < 10 \<Longrightarrow> digit_value (digit_char d) = d"
proof -
  assume "d < 10"
  then have "d \<in> {0, 1, 2, 3, 4, 5, 6, 7, 8, 9}" by auto
  then show ?thesis
    by (auto simp: digit_value_def digit_char_def)
qed

lemma dec_value_append:
  "dec_value (s @ [c]) = 10 * dec_value s + digit_value c"
  by (simp add: dec_value_def)

lemma dec_value_dec_digits: "dec_value (dec_digits n) = n"
proof (induction n rule: dec_digits.induct)
  case (1 n)
  show ?case
  proof (cases "n < 10")
    case True
    then show ?thesis
      by (subst dec_digits.simps) (simp add: dec_value_def digit_value_digit_char)
  next
    case False
    with 1 have "dec_value (dec_digits (n div 10)) = n div 10" by simp
    with False show ?thesis
      by (subst dec_digits.simps) (simp add: dec_value_append digit_value_digit_char)
  qed
qed

lemma dec_digits_not_Nil: "dec_digits n \<noteq> []"
  by (subst dec_digits.simps) simp

lemma digit_char_not_minus: "d < 10 \<Longrightarrow> digit_char d \<noteq> CHR ''-''"
proof -
  assume "d < 10"
  then have "d \<in> {0, 1, 2, 3, 4, 5, 6, 7, 8, 9}" by auto
  then show ?thesis
    by (auto simp: digit_char_def)
qed

lemma hd_dec_digits_not_minus: "hd (dec_digits n) \<noteq> CHR ''-''"
proof (induction n rule: dec_digits.induct)
  case (1 n)
  show ?case
  proof (cases "n < 10")
    case True
    then show ?thesis
      by (subst dec_digits.simps) (simp add: digit_char_not_minus)
  next
    case False
    with 1 have "hd (dec_digits (n div 10)) \<noteq> CHR ''-''" by simp
    with False show ?thesis
      by (subst dec_digits.simps) (simp add: dec_digits_not_Nil)
  qed
qed

lemma parseInt_Number_toString: "parseInt (Number_toString n) = n"
proof (cases "n < 0")
  case True
  then show ?thesis
    by (simp add: parseInt_def Number_toString_def dec_value_dec_digits)
next
  case False
  obtain c cs where s: "dec_digits (nat n) = c # cs"
    using dec_digits_not_Nil [of "nat n"] by (cases "dec_digits (nat n)") auto
  with hd_dec_digits_not_minus [of "nat n"] have "c \<noteq> CHR ''-''" by simp
  moreover have "dec_value (c # cs) = nat n"
    using dec_value_dec_digits [of "nat n"] s by simp
  ultimately show ?thesis
    using False s by (simp add: parseInt_def Number_toString_def)
qed

lemma digit_char_not_nul: "d < 10 \<Longrightarrow> digit_char d \<noteq> CHR 0x00"
proof -
  assume "d < 10"
  then have "d \<in> {0, 1, 2, 3, 4, 5, 6, 7, 8, 9}" by auto
  then show ?thesis
    by (auto simp: digit_char_def)
qed

lemma nul_free_dec_digits: "nul_free (dec_digits n)"
proof (induction n rule: dec_digits.induct)
  case (1 n)
  show ?case
  proof (cases "n < 10")
    case True
    then show ?thesis
      using digit_char_not_nul [of n]
      by (subst dec_digits.simps) (simp add: nul_free_def)
  next
    case False
    with 1 have "nul_free (dec_digits (n div 10))" by simp
    with False show ?thesis
      using digit_char_not_nul [of "n mod 10"]
      by (subst dec_digits.simps) (simp add: nul_free_def)
  qed
qed

section \<open>Buffers and lengths\<close>

lemma length_Buffer_write [simp]: "length (Buffer_write buf at bs) = length buf"
  by (auto simp: Buffer_write_def)

lemma length_Buffer_copy [simp]: "length (Buffer_copy s t ts ss se) = length t"
  by (simp add: Buffer_copy_def)

lemma length_Buffer_alloc [simp]: "length (Buffer_alloc n) = n"
  by (simp add: Buffer_alloc_def)

lemma Buffer_write_fits:
  "at + length bs \<le> length buf \<Longrightarrow> Buffer_write buf at bs = take at buf @ bs @ drop (at + length bs) buf"
  by (simp add: Buffer_write_def)

lemma take_Buffer_write_0:
  "length bs \<le> length buf \<Longrightarrow> take (length bs) (Buffer_write buf 0 bs) = bs"
  by (simp add: Buffer_write_def)

lemma length_le_bytes [simp]: "length (le_bytes k w) = k"
  by (induction k arbitrary: w) auto

lemma length_int32_bytes [simp]: "length (int32_bytes n) = 4"
  by (simp add: int32_bytes_def)

lemma length_cstring [simp]: "length (cstring s) = length s + 1"
  by (simp add: cstring_def)

lemma length_frame [simp]: "length (frame body) = 4 + length body + 1"
  by (simp add: frame_def)

lemma length_string_payload [simp]: "length (string_payload s) = string_size s"
  by (simp add: string_payload_def string_size_def)

lemma length_element [simp]: "length (element t k p) = 1 + length k + 1 + length p"
  by (simp add: element_def)

lemma length_sort_flags [simp]: "length (sort_flags f) = length f"
  by (simp add: sort_flags_def)

lemma length_serialize:
  "serializeElement ck sf iu k v = Inr bs \<Longrightarrow> length bs = calculateElement sf iu k v"
  "serializeElements ck sf iu d = Inr bs' \<Longrightarrow> length bs' = calculateElements sf iu d"
  "serializeArrayElements ck sf iu i vs = Inr bs'' \<Longrightarrow> length bs'' = calculateArrayElements sf iu i vs"
proof (induction ck sf iu k v and ck sf iu d and ck sf iu i vs arbitrary: bs and bs' and bs''
    rule: serializeElement_serializeElements_serializeArrayElements.induct)
qed (auto simp: objectid_bytes_def long_bytes_def split: if_splits sum.splits)


section \<open>Reading back what was written\<close>

lemma le_word_le_bytes_take:
  "(le_word (le_bytes k w) :: 'a::len word) = take_bit (8 * k) w"
proof (induction k arbitrary: w)
  case 0
  then show ?case by simp
next
  case (Suc k)
  show ?case
    by (rule bit_word_eqI) (auto simp: Suc bit_simps dest: bit_imp_le_length)
qed

lemma le_word_le_bytes:
  "LENGTH('a::len) \<le> 8 * k \<Longrightarrow> (le_word (le_bytes k w) :: 'a word) = w"
  by (simp add: le_word_le_bytes_take take_bit_word_eq_self)

lemma char_of_byte_of_char [simp]: "char_of_byte (byte_of_char c) = c"
  by (simp add: char_of_byte_def byte_of_char_def unat_of_nat)

lemma byte_of_char_eq_0 [simp]: "byte_of_char c = 0 \<longleftrightarrow> c = CHR 0x00"
proof -
  have "byte_of_char c = 0 \<longleftrightarrow> unat (byte_of_char c) = 0"
    by (simp add: unat_eq_0)
  also have "\<dots> \<longleftrightarrow> (of_char c :: nat) = of_char (CHR 0x00)"
    by (simp add: byte_of_char_def unat_of_nat)
  also have "\<dots> \<longleftrightarrow> c = CHR 0x00"
    by (rule of_char_eq_iff)
  finally show ?thesis .
qed

lemma read_cstring_cstring:
  assumes "nul_free k"
  shows "read_cstring (cstring k @ rest) = Some (k, rest)"
proof -
  define ks where "ks = map byte_of_char k"
  have nz: "\<And>b. b \<in> set ks \<Longrightarrow> b \<noteq> 0"
    using assms by (auto simp: nul_free_def ks_def)
  have decode: "map char_of_byte ks = k"
    by (simp add: ks_def comp_def)
  have tw: "takeWhile (\<lambda>b. b \<noteq> 0) (ks @ 0 # rest) = ks"
    using nz by (induction ks) auto
  have dw: "dropWhile (\<lambda>b. b \<noteq> 0) (ks @ 0 # rest) = 0 # rest"
    using nz by (induction ks) auto
  have "read_cstring (ks @ 0 # rest) = Some (map char_of_byte ks, rest)"
    unfolding read_cstring_def tw dw by simp
  then show ?thesis
    by (simp add: cstring_def ks_def [symmetric] decode)
qed

lemma read_bytes_append:
  "length xs = n \<Longrightarrow> read_bytes n (xs @ rest) = Some (xs, rest)"
  by (simp add: read_bytes_def)

lemma sint_word_of_nat_32:
  "n < 2 ^ 31 \<Longrightarrow> sint (word_of_nat n :: 32 word) = int n"
  by (simp add: sint_uint signed_take_bit_int_eq_self unsigned_of_nat take_bit_nat_eq_self
      del: of_nat_numeral)

lemma read_int32_int32_bytes:
  "n < 2 ^ 31 \<Longrightarrow> read_int32 (int32_bytes n @ rest) = Some (int n, rest)"
  by (simp add: read_int32_def int32_bytes_def read_bytes_append le_word_le_bytes
      sint_word_of_nat_32)

lemma read_string_eq:
  "read_int32 bs = Some (int m, r) \<Longrightarrow> 1 \<le> m \<Longrightarrow> m \<le> length r \<Longrightarrow> r ! (m - 1) = 0
   \<Longrightarrow> read_string bs = Inr (map char_of_byte (take (m - 1) r), drop m r)"
  by (simp add: read_string_def)

lemma read_string_string_payload:
  assumes "length s + 1 < 2 ^ 31"
  shows "read_string (string_payload s @ rest) = Inr (s, rest)"
proof -
  have "read_int32 (string_payload s @ rest) = Some (int (length s + 1), cstring s @ rest)"
    using assms by (simp add: string_payload_def read_int32_int32_bytes)
  from read_string_eq [OF this] show ?thesis
    by (simp add: cstring_def nth_append comp_def)
qed

lemma split_document_eq:
  "read_int32 bs = Some (int m, r) \<Longrightarrow> 5 \<le> m \<Longrightarrow> m \<le> length bs \<Longrightarrow> bs ! (m - 1) = 0
   \<Longrightarrow> split_document bs = Inr (take (m - 5) r, drop m bs)"
  by (simp add: split_document_def)

lemma split_document_frame:
  assumes "4 + length body + 1 < 2 ^ 31"
  shows "split_document (frame body @ rest) = Inr (body, rest)"
proof -
  have "read_int32 (frame body @ rest) = Some (int (4 + length body + 1), body @ 0 # rest)"
    using assms by (simp add: frame_def read_int32_int32_bytes)
  from split_document_eq [OF this] show ?thesis
    by (simp add: frame_def nth_append)
qed

lemma read_code_with_scope_payload:
  assumes "4 + length (string_payload c) + length (frame body) < 2 ^ 31"
  shows "read_code_with_scope
           (int32_bytes (4 + length (string_payload c) + length (frame body))
            @ string_payload c @ frame body @ rest) = Inr (c, body, rest)"
proof -
  have a: "read_int32 (int32_bytes (4 + length (string_payload c) + length (frame body))
            @ string_payload c @ frame body @ rest)
           = Some (int (4 + length (string_payload c) + length (frame body)),
                   string_payload c @ frame body @ rest)"
    using assms by (rule read_int32_int32_bytes)
  have b: "read_string (string_payload c @ frame body @ rest) = Inr (c, frame body @ rest)"
    using assms by (intro read_string_string_payload) (simp add: string_size_def)
  have c: "split_document (frame body @ rest) = Inr (body, rest)"
    using assms by (intro split_document_frame) simp
  show ?thesis
    by (simp only: read_code_with_scope_def a b c option.case prod.case sum.case)
      (simp add: string_size_def)
qed


lemma deserialize_scalar_step:
  "nul_free k \<Longrightarrow> t \<noteq> 3 \<Longrightarrow> t \<noteq> 4 \<Longrightarrow> t \<noteq> 15
   \<Longrightarrow> parse_scalar p t (payload @ rest) = Inr (v, rest)
   \<Longrightarrow> deserializeElements p (element t k payload @ rest)
       = (case deserializeElements p rest of Inl e \<Rightarrow> Inl e | Inr es \<Rightarrow> Inr ((k, v) # es))"
  by (simp add: element_def read_cstring_cstring)

lemma deserialize_document_step:
  "nul_free k \<Longrightarrow> 4 + length body + 1 < 2 ^ 31
   \<Longrightarrow> deserializeElements p (element 3 k (frame body) @ rest)
       = (case deserializeElements p body of
            Inl e \<Rightarrow> Inl e
          | Inr d \<Rightarrow> (case deserializeElements p rest of
                         Inl e \<Rightarrow> Inl e
                       | Inr es \<Rightarrow> Inr ((k, Document d) # es)))"
  by (simp add: element_def read_cstring_cstring split_document_frame cong: sum.case_cong)

lemma deserialize_array_step:
  "nul_free k \<Longrightarrow> 4 + length body + 1 < 2 ^ 31
   \<Longrightarrow> deserializeElements p (element 4 k (frame body) @ rest)
       = (case deserializeElements p body of
            Inl e \<Rightarrow> Inl e
          | Inr d \<Rightarrow> (case deserializeElements p rest of
                         Inl e \<Rightarrow> Inl e
                       | Inr es \<Rightarrow> Inr ((k, Array (map snd d)) # es)))"
  by (simp add: element_def read_cstring_cstring split_document_frame cong: sum.case_cong)

lemma deserialize_scope_step:
  "nul_free k \<Longrightarrow> 4 + length (string_payload c) + length (frame body) < 2 ^ 31
   \<Longrightarrow> deserializeElements p
         (element 15 k (int32_bytes (4 + length (string_payload c) + length (frame body))
                        @ string_payload c @ frame body) @ rest)
       = (case deserializeElements p body of
            Inl e \<Rightarrow> Inl e
          | Inr scope \<Rightarrow> (case deserializeElements p rest of
                         Inl e \<Rightarrow> Inl e
                       | Inr es \<Rightarrow> Inr ((k, JavaScriptCode c (Some scope)) # es)))"
  using read_code_with_scope_payload [of c body rest]
  by (simp add: element_def read_cstring_cstring del: length_string_payload length_frame)

lemma length_long_bytes [simp]: "length (long_bytes l) = 8"
  by (simp add: long_bytes_def)

lemma long_of_bytes_long_bytes:
  "long_of_bytes (long_bytes l) u = l\<lparr>unsigned := u\<rparr>"
  by (simp add: long_of_bytes_def long_bytes_def le_word_le_bytes)

lemma Long_bits_unsigned_update [simp]: "Long_bits (l\<lparr>unsigned := u\<rparr>) = Long_bits l"
  by (simp add: Long_bits_def)

lemma Long_unsigned_update_same: "unsigned l = u \<Longrightarrow> l\<lparr>unsigned := u\<rparr> = l"
  by simp

lemma parse_scalar_roundtrip:
  "parse_scalar p 0x01 (le_bytes 8 w64 @ rest) = Inr (Double w64, rest)"
  "length s + 1 < 2 ^ 31 \<Longrightarrow> parse_scalar p 0x02 (string_payload s @ rest) = Inr (String s, rest)"
  "length bs < 2 ^ 31
   \<Longrightarrow> parse_scalar p 0x05 (int32_bytes (length bs) @ st # bs @ rest) = Inr (Binary st bs, rest)"
  "parse_scalar p 0x07 (objectid_bytes oid @ rest) = Inr (ObjectId oid, rest)"
  "parse_scalar p 0x08 (1 # rest) = Inr (Boolean True, rest)"
  "parse_scalar p 0x08 (0 # rest) = Inr (Boolean False, rest)"
  "parse_scalar p 0x09 (le_bytes 8 w64 @ rest) = Inr (DateTime w64, rest)"
  "parse_scalar p 0x0A rest = Inr (Null, rest)"
  "nul_free pat \<Longrightarrow> nul_free f
   \<Longrightarrow> parse_scalar p 0x0B (cstring pat @ cstring f @ rest) = Inr (RegExp pat f, rest)"
  "length s + 1 < 2 ^ 31
   \<Longrightarrow> parse_scalar p 0x0C (string_payload s @ objectid_bytes oid @ rest)
       = Inr (DBPointer s oid, rest)"
  "length s + 1 < 2 ^ 31
   \<Longrightarrow> parse_scalar p 0x0D (string_payload s @ rest) = Inr (JavaScriptCode s None, rest)"
  "length s + 1 < 2 ^ 31 \<Longrightarrow> parse_scalar p 0x0E (string_payload s @ rest) = Inr (Symbol s, rest)"
  "parse_scalar p 0x10 (le_bytes 4 w32 @ rest) = Inr (Int32 w32, rest)"
  "unsigned l \<Longrightarrow> parse_scalar p 0x11 (long_bytes l @ rest) = Inr (Timestamp l, rest)"
  "\<not> unsigned l \<Longrightarrow> \<not> (p \<and> promoted l)
   \<Longrightarrow> parse_scalar p 0x12 (long_bytes l @ rest) = Inr (WideInt64 l, rest)"
  "parse_scalar p 0x13 (le_bytes 16 w128 @ rest) = Inr (Decimal128 w128, rest)"
  "parse_scalar p 0xFF rest = Inr (MinKey, rest)"
  "parse_scalar p 0x7F rest = Inr (MaxKey, rest)"
  using read_int32_int32_bytes [of "length bs" "st # bs @ rest"]
  by (auto simp: parse_scalar_def read_bytes_append le_word_le_bytes read_string_string_payload
      objectid_bytes_def read_cstring_cstring long_of_bytes_long_bytes
      promote_long_def promoted_def Let_def Long_unsigned_update_same)

lemma roundtrip_elements:
  "serializeElement ck sf iu k v = Inr bs \<Longrightarrow> supported_value p v \<Longrightarrow> nul_free k
   \<Longrightarrow> length bs < 2 ^ 31
   \<Longrightarrow> deserializeElements p (bs @ rest)
       = (case deserializeElements p rest of Inl e \<Rightarrow> Inl e | Inr es \<Rightarrow> Inr ((k, v) # es))"
  "serializeElements ck sf iu d = Inr bs' \<Longrightarrow> supported_elements p d
   \<Longrightarrow> length bs' < 2 ^ 31
   \<Longrightarrow> deserializeElements p (bs' @ rest')
       = (case deserializeElements p rest' of Inl e \<Rightarrow> Inl e | Inr es \<Rightarrow> Inr (d @ es))"
  "serializeArrayElements ck sf iu i vs = Inr bs'' \<Longrightarrow> supported_items p vs
   \<Longrightarrow> length bs'' < 2 ^ 31
   \<Longrightarrow> deserializeElements p (bs'' @ rest'')
       = (case deserializeElements p rest'' of
            Inl e \<Rightarrow> Inl e
          | Inr es \<Rightarrow> Inr (zip (map dec_digits [i..<i + length vs]) vs @ es))"
proof (induction ck sf iu k v and ck sf iu d and ck sf iu i vs
    arbitrary: bs rest and bs' rest' and bs'' rest''
    rule: serializeElement_serializeElements_serializeArrayElements.induct)
  case (1 ck sf iu)
  then show ?case by (simp split: sum.splits)
next
  case (2 ck sf iu k v es)
  from "2.prems" obtain b1 b2 where guard: "\<not> (ck \<and> forbidden_key k)"
    and b1: "serializeElement ck sf iu k v = Inr b1"
    and b2: "serializeElements ck sf iu es = Inr b2"
    and bs: "bs' = b1 @ b2"
    by (auto split: if_splits sum.splits)
  from "2.prems" have sup: "nul_free k" "supported_value p v" "supported_elements p es"
    by simp_all
  from "2.prems" bs have len: "length b1 < 2 ^ 31" "length b2 < 2 ^ 31"
    by simp_all
  have "deserializeElements p (b1 @ (b2 @ rest'))
        = (case deserializeElements p (b2 @ rest') of
             Inl e \<Rightarrow> Inl e | Inr es' \<Rightarrow> Inr ((k, v) # es'))"
    using "2.IH"(1) [OF guard b1 sup(2) sup(1) len(1)] .
  moreover have "deserializeElements p (b2 @ rest')
        = (case deserializeElements p rest' of
             Inl e \<Rightarrow> Inl e | Inr es' \<Rightarrow> Inr (es @ es'))"
    using "2.IH"(2) [OF guard b1 b2 sup(3) len(2)] .
  ultimately show ?case
    by (simp add: bs split: sum.splits)
next
  case (3 ck sf iu i)
  then show ?case by (simp split: sum.splits)
next
  case (4 ck sf iu i v vs)
  from "4.prems" obtain b1 b2 where b1: "serializeElement ck sf iu (dec_digits i) v = Inr b1"
    and b2: "serializeArrayElements ck sf iu (Suc i) vs = Inr b2"
    and bs: "bs'' = b1 @ b2"
    by (auto split: if_splits sum.splits)
  from "4.prems" have sup: "supported_value p v" "supported_items p vs"
    by simp_all
  from "4.prems" bs have len: "length b1 < 2 ^ 31" "length b2 < 2 ^ 31"
    by simp_all
  have "deserializeElements p (b1 @ (b2 @ rest''))
        = (case deserializeElements p (b2 @ rest'') of
             Inl e \<Rightarrow> Inl e | Inr es' \<Rightarrow> Inr ((dec_digits i, v) # es'))"
    using "4.IH"(1) [OF b1 sup(1) nul_free_dec_digits len(1)] .
  moreover have "deserializeElements p (b2 @ rest'')
        = (case deserializeElements p rest'' of
             Inl e \<Rightarrow> Inl e
           | Inr es' \<Rightarrow> Inr (zip (map dec_digits [Suc i..<Suc i + length vs]) vs @ es'))"
    using "4.IH"(2) [OF b1 b2 sup(2) len(2)] .
  ultimately show ?case
    by (simp add: bs upt_conv_Cons del: upt_Suc split: sum.splits)
next
  case (7 ck sf iu k d)
  from "7.prems" obtain body where body: "serializeElements ck sf iu d = Inr body"
    and bs: "bs = element 3 k (frame body)"
    by (auto split: sum.splits)
  from "7.prems" bs have len: "4 + length body + 1 < 2 ^ 31" "length body < 2 ^ 31"
    by simp_all
  have "deserializeElements p (body @ [])
        = (case deserializeElements p [] of Inl e \<Rightarrow> Inl e | Inr es \<Rightarrow> Inr (d @ es))"
    by (rule "7.IH" [OF body]) (use "7.prems" len in simp_all)
  then show ?case
    using "7.prems" len by (simp add: bs deserialize_document_step)
next
  case (8 ck sf iu k vs)
  from "8.prems" obtain body where body: "serializeArrayElements ck sf iu 0 vs = Inr body"
    and bs: "bs = element 4 k (frame body)"
    by (auto split: sum.splits)
  from "8.prems" bs have len: "4 + length body + 1 < 2 ^ 31" "length body < 2 ^ 31"
    by simp_all
  have "deserializeElements p (body @ [])
        = (case deserializeElements p [] of
             Inl e \<Rightarrow> Inl e
           | Inr es \<Rightarrow> Inr (zip (map dec_digits [0..<0 + length vs]) vs @ es))"
    by (rule "8.IH" [OF body]) (use "8.prems" len in simp_all)
  then show ?case
    using "8.prems" len by (simp add: bs deserialize_array_step map_snd_zip cong: sum.case_cong)
next
  case (18 ck sf iu k c scope)
  from "18.prems" obtain body where body: "serializeElements ck sf iu scope = Inr body"
    and bs: "bs = element 15 k (int32_bytes (4 + length (string_payload c) + length (frame body))
                                @ string_payload c @ frame body)"
    by (auto split: sum.splits)
  from "18.prems" bs have len: "4 + length (string_payload c) + length (frame body) < 2 ^ 31"
    "length body < 2 ^ 31"
    by simp_all
  have "deserializeElements p (body @ [])
        = (case deserializeElements p [] of Inl e \<Rightarrow> Inl e | Inr es \<Rightarrow> Inr (scope @ es))"
    by (rule "18.IH" [OF body]) (use "18.prems" len in simp_all)
  then show ?case
    using "18.prems" len
    by (simp add: bs deserialize_scope_step del: length_string_payload length_frame)
qed (auto simp: parse_scalar_roundtrip string_size_def intro!: deserialize_scalar_step)


section \<open>Failure and success of the serializer\<close>

lemma serialize_error:
  "serializeElement ck sf iu k v = Inl e \<Longrightarrow> ck \<and> forbidden_in_value v \<and> e = InvalidKey"
  "serializeElements ck sf iu d = Inl e' \<Longrightarrow> ck \<and> forbidden_in_elements d \<and> e' = InvalidKey"
  "serializeArrayElements ck sf iu i vs = Inl e'' \<Longrightarrow> ck \<and> forbidden_in_items vs \<and> e'' = InvalidKey"
proof (induction ck sf iu k v and ck sf iu d and ck sf iu i vs arbitrary: e and e' and e''
    rule: serializeElement_serializeElements_serializeArrayElements.induct)
qed (simp_all split: sum.splits if_splits)


lemma serialize_forbidden:
  "ck \<Longrightarrow> forbidden_in_value v \<Longrightarrow> serializeElement ck sf iu k v = Inl InvalidKey"
  "ck \<Longrightarrow> forbidden_in_elements d \<Longrightarrow> serializeElements ck sf iu d = Inl InvalidKey"
  "ck \<Longrightarrow> forbidden_in_items vs \<Longrightarrow> serializeArrayElements ck sf iu i vs = Inl InvalidKey"
proof (induction ck sf iu k v and ck sf iu d and ck sf iu i vs
    rule: serializeElement_serializeElements_serializeArrayElements.induct)
qed (auto split: sum.splits dest: serialize_error intro: ccontr)



lemma serializeDocument_error:
  "serializeDocument ck sf iu d = Inl e \<Longrightarrow> ck \<and> forbidden_in_elements d \<and> e = InvalidKey"
  by (auto simp: serializeDocument_def split: sum.splits dest: serialize_error(2))

lemma serializeDocument_forbidden:
  "ck \<Longrightarrow> forbidden_in_elements d \<Longrightarrow> serializeDocument ck sf iu d = Inl InvalidKey"
  by (simp add: serializeDocument_def serialize_forbidden(2))

lemma serializeDocument_succeeds:
  "\<not> (ck \<and> forbidden_in_elements d) \<Longrightarrow> \<exists>bs. serializeDocument ck sf iu d = Inr bs"
  by (cases "serializeDocument ck sf iu d") (auto dest: serializeDocument_error)

lemma length_serializeDocument:
  "serializeDocument ck sf iu d = Inr bs \<Longrightarrow> length bs = internalCalculateObjectSize d sf iu"
  by (auto simp: serializeDocument_def internalCalculateObjectSize_def length_serialize
      split: sum.splits)

lemma deserialize_serializeDocument:
  assumes "serializeDocument ck sf iu d = Inr bs"
    and "supported_elements (promotes options) d"
    and "length bs < 2 ^ 31"
    and "DeserializationOptions.index options = None \<or> DeserializationOptions.index options = Some 0"
  shows "deserialize bs options = Inr d"
proof -
  from assms(1) obtain body where body: "serializeElements ck sf iu d = Inr body"
    and bs: "bs = frame body"
    by (auto simp: serializeDocument_def split: sum.splits)
  from assms(3) bs have len: "4 + length body + 1 < 2 ^ 31" "length body < 2 ^ 31"
    by simp_all
  have "deserializeElements (promotes options) (body @ [])
        = (case deserializeElements (promotes options) [] of
             Inl e \<Rightarrow> Inl e | Inr es \<Rightarrow> Inr (d @ es))"
    by (rule roundtrip_elements(2) [OF body assms(2) len(2)])
  then have parse: "deserializeElements (promotes options) body = Inr d"
    by simp
  have split: "split_document (frame body) = Inr (body, [])"
    using split_document_frame [OF len(1), of "[]"] by simp
  from assms(4) show ?thesis
    by (auto simp: deserialize_def ensureBuffer_def internalDeserialize_def bs split parse
        or_default_def)
qed

section \<open>The entry points\<close>

lemma Buffer_copy_written:
  "length bs \<le> length buf
   \<Longrightarrow> Buffer_copy (Buffer_write buf 0 bs) (Buffer_alloc (length bs)) 0 0 (length bs) = bs"
  by (simp add: Buffer_copy_def Buffer_write_def Buffer_alloc_def)

lemma serialize_with_Inl:
  assumes "internalSerialize
             (if length (buffer st) < or_default (minInternalBufferSize options) MAXSIZE
              then Buffer_alloc (or_default (minInternalBufferSize options) MAXSIZE)
              else buffer st)
             (or_default (checkKeys options) False) 0 0
             (or_default (serializeFunctions options) False)
             (or_default (ignoreUndefined options) True) = (b1, Inl e)"
  shows "serialize_with internalSerialize st options = (st\<lparr>buffer := b1\<rparr>, Inl e)"
  using assms by (simp add: serialize_with_def Let_def)

lemma serialize_with_Inr:
  assumes "internalSerialize
             (if length (buffer st) < or_default (minInternalBufferSize options) MAXSIZE
              then Buffer_alloc (or_default (minInternalBufferSize options) MAXSIZE)
              else buffer st)
             (or_default (checkKeys options) False) 0 0
             (or_default (serializeFunctions options) False)
             (or_default (ignoreUndefined options) True) = (b1, Inr n)"
  shows "serialize_with internalSerialize st options
         = (st\<lparr>buffer := b1\<rparr>, Inr (Buffer_copy b1 (Buffer_alloc n) 0 0 n))"
  using assms by (simp add: serialize_with_def Let_def)

lemma serializeWithBufferAndIndex_with_Inl:
  assumes "internalSerialize (buffer st)
             (or_default (checkKeys options) False) 0 0
             (or_default (serializeFunctions options) False)
             (or_default (ignoreUndefined options) True) = (b1, Inl e)"
  shows "serializeWithBufferAndIndex_with internalSerialize st finalBuffer options
         = (st\<lparr>buffer := b1\<rparr>, finalBuffer, Inl e)"
  using assms by (simp add: serializeWithBufferAndIndex_with_def Let_def)

lemma serializeWithBufferAndIndex_with_Inr:
  assumes "internalSerialize (buffer st)
             (or_default (checkKeys options) False) 0 0
             (or_default (serializeFunctions options) False)
             (or_default (ignoreUndefined options) True) = (b1, Inr n)"
  shows "serializeWithBufferAndIndex_with internalSerialize st finalBuffer options
         = (st\<lparr>buffer := b1\<rparr>,
            Buffer_copy b1 finalBuffer (or_default (SerializationOptions.index options) 0) 0 n,
            Inr (int (or_default (SerializationOptions.index options) 0) + int n - 1))"
  using assms by (simp add: serializeWithBufferAndIndex_with_def Let_def)

lemma serializeInto_Inl:
  "serializeDocument ck sf iu object = Inl e
   \<Longrightarrow> serializeInto buf object ck startingIndex depth sf iu = (buf, Inl e)"
  by (simp add: serializeInto_def)

lemma serializeInto_Inr:
  "serializeDocument ck sf iu object = Inr bs
   \<Longrightarrow> serializeInto buf object ck startingIndex depth sf iu
       = (Buffer_write buf startingIndex bs, Inr (startingIndex + length bs))"
  by (simp add: serializeInto_def)

lemma calculateObjectSize_eq:
  "calculateObjectSize object options
   = internalCalculateObjectSize object (or_default (serializeFunctions options) False)
       (or_default (ignoreUndefined options) True)"
  by (simp add: calculateObjectSize_def Let_def)

lemma serialize_Inr:
  assumes "serializeDocument (or_default (checkKeys options) False)
             (or_default (serializeFunctions options) False)
             (or_default (ignoreUndefined options) True) object = Inr bs"
  shows "\<exists>st'. serialize st object options
           = (st', Inr (Buffer_copy
                          (Buffer_write
                             (if length (buffer st) < or_default (minInternalBufferSize options) MAXSIZE
                              then Buffer_alloc (or_default (minInternalBufferSize options) MAXSIZE)
                              else buffer st) 0 bs)
                          (Buffer_alloc (length bs)) 0 0 (length bs)))"
  using assms by (simp add: serialize_def serialize_with_def serializeInto_def Let_def)

lemma serialize_Inr_fits:
  assumes enc: "serializeDocument (or_default (checkKeys options) False)
             (or_default (serializeFunctions options) False)
             (or_default (ignoreUndefined options) True) object = Inr bs"
    and fits: "length bs \<le> capacity st options"
  shows "\<exists>st'. serialize st object options = (st', Inr bs)"
proof -
  let ?buffer0 = "if length (buffer st) < or_default (minInternalBufferSize options) MAXSIZE
                  then Buffer_alloc (or_default (minInternalBufferSize options) MAXSIZE)
                  else buffer st"
  have "length bs \<le> length ?buffer0"
    using fits by (auto simp: capacity_def max_def split: if_splits)
  then have "Buffer_copy (Buffer_write ?buffer0 0 bs) (Buffer_alloc (length bs)) 0 0 (length bs) = bs"
    by (rule Buffer_copy_written)
  with serialize_Inr [OF enc, of st] show ?thesis
    by simp
qed

lemma serialize_Inl:
  assumes "serializeDocument (or_default (checkKeys options) False)
             (or_default (serializeFunctions options) False)
             (or_default (ignoreUndefined options) True) object = Inl e"
  shows "snd (serialize st object options) = Inl e"
  using assms by (simp add: serialize_def serialize_with_def serializeInto_def Let_def)

lemma serializeWithBufferAndIndex_Inl:
  assumes "serializeDocument (or_default (checkKeys options) False)
             (or_default (serializeFunctions options) False)
             (or_default (ignoreUndefined options) True) object = Inl e"
  shows "serializeWithBufferAndIndex st object finalBuffer options = (st, finalBuffer, Inl e)"
  using assms
  by (simp add: serializeWithBufferAndIndex_def serializeWithBufferAndIndex_with_def
      serializeInto_def Let_def)

lemma serializeWithBufferAndIndex_Inr:
  assumes "serializeDocument (or_default (checkKeys options) False)
             (or_default (serializeFunctions options) False)
             (or_default (ignoreUndefined options) True) object = Inr bs"
  shows "serializeWithBufferAndIndex st object finalBuffer options
         = (st\<lparr>buffer := Buffer_write (buffer st) 0 bs\<rparr>,
            Buffer_copy (Buffer_write (buffer st) 0 bs) finalBuffer
              (or_default (SerializationOptions.index options) 0) 0 (length bs),
            Inr (int (or_default (SerializationOptions.index options) 0) + int (length bs) - 1))"
  using assms
  by (simp add: serializeWithBufferAndIndex_def serializeWithBufferAndIndex_with_def
      serializeInto_def Let_def)

lemma length_buffer_serialize:
  "length (buffer (fst (serialize st object options)))
   = max (length (buffer st)) (or_default (minInternalBufferSize options) MAXSIZE)"
  by (cases "serializeDocument (or_default (checkKeys options) False)
             (or_default (serializeFunctions options) False)
             (or_default (ignoreUndefined options) True) object")
    (auto simp: serialize_def serialize_with_def serializeInto_def Let_def max_def)

lemma length_buffer_serializeWithBufferAndIndex:
  "length (buffer (fst (serializeWithBufferAndIndex st object finalBuffer options)))
   = length (buffer st)"
  by (cases "serializeDocument (or_default (checkKeys options) False)
             (or_default (serializeFunctions options) False)
             (or_default (ignoreUndefined options) True) object")
    (simp_all add: serializeWithBufferAndIndex_Inl serializeWithBufferAndIndex_Inr)

lemma length_buffer_setInternalBufferSize:
  "length (buffer (setInternalBufferSize n st)) = max (length (buffer st)) n"
  by (simp add: setInternalBufferSize_def max_def)

lemma length_buffer_api_step: "length (buffer st) \<le> length (buffer (api_step st c))"
  by (cases c)
    (simp_all add: length_buffer_serialize length_buffer_serializeWithBufferAndIndex
      length_buffer_setInternalBufferSize)

lemma length_buffer_run: "length (buffer st) \<le> length (buffer (foldl api_step st calls))"
proof (induction calls arbitrary: st)
  case Nil
  then show ?case by simp
next
  case (Cons c calls)
  have "length (buffer st) \<le> length (buffer (api_step st c))"
    by (rule length_buffer_api_step)
  also have "\<dots> \<le> length (buffer (foldl api_step (api_step st c) calls))"
    by (rule Cons.IH)
  finally show ?case by simp
qed

lemma nested_numeral:
  "nested (numeral k) = [(''a'', Array [Document (nested (pred_numeral k))])]"
  by (simp add: numeral_eq_Suc)

lemma replicate_numeral:
  "replicate (numeral k) x = x # replicate (pred_numeral k) x"
  by (simp add: numeral_eq_Suc)

lemma le_bytes_numeral:
  "le_bytes (numeral n) w = ucast w # le_bytes (pred_numeral n) (drop_bit 8 w)"
  by (simp add: numeral_eq_Suc)

section \<open>Further facts used by the properties\<close>

lemma MAXSIZE_pos: "5 \<le> MAXSIZE"
  by (simp add: MAXSIZE_def)

lemma serializeDocument_empty: "serializeDocument ck sf iu [] = Inr [5, 0, 0, 0, 0]"
  by (simp add: serializeDocument_def frame_def int32_bytes_def le_bytes_numeral)

lemma roundtrip_document:
  assumes sup: "supported_elements (promotes options') object"
    and keys: "\<not> (or_default (checkKeys options) False \<and> forbidden_in_elements object)"
    and small: "calculateObjectSize object options < 2 ^ 31"
    and fits: "calculateObjectSize object options \<le> capacity st options"
    and start: "DeserializationOptions.index options' = None
                \<or> DeserializationOptions.index options' = Some 0"
  shows "\<exists>st' bytes. serialize st object options = (st', Inr bytes)
           \<and> length bytes = calculateObjectSize object options
           \<and> deserialize bytes options' = Inr object"
proof -
  from serializeDocument_succeeds [OF keys]
  obtain bs where enc: "serializeDocument (or_default (checkKeys options) False)
      (or_default (serializeFunctions options) False)
      (or_default (ignoreUndefined options) True) object = Inr bs"
    by blast
  have len: "length bs = calculateObjectSize object options"
    using length_serializeDocument [OF enc] by (simp add: calculateObjectSize_eq)
  from serialize_Inr_fits [OF enc, of st] fits len
  obtain st' where "serialize st object options = (st', Inr bs)"
    by auto
  moreover have "deserialize bs options' = Inr object"
    using deserialize_serializeDocument [OF enc sup _ start] small len by simp
  ultimately show ?thesis
    using len by blast
qed

lemma capacity_initial_state: "MAXSIZE \<le> capacity initial_state options"
  by (simp add: capacity_def initial_state_def)

lemma framed_index [simp]:
  "framed deserializer data (internalOptions\<lparr>index := x\<rparr>) index' ds = framed deserializer data internalOptions index' ds"
  by (induction ds arbitrary: index') simp_all

lemma deserializeStream_loop_framed:
  "framed deserializer data internalOptions index' ds
   \<Longrightarrow> deserializeStream_loop deserializer data internalOptions (i + length ds) docStartIndex i documents index'
       = ((\<lambda>j. if docStartIndex + i \<le> j \<and> j < docStartIndex + i + length ds
                then Some (ds ! (j - (docStartIndex + i))) else documents j),
          Inr (index' + sum_list (length_prefixes data index' (length ds))))"
proof (induction ds arbitrary: internalOptions i documents index')
  case Nil
  then show ?case
    by (subst deserializeStream_loop.simps) (auto simp: fun_eq_iff)
next
  case (Cons d ds)
  from Cons.prems have d: "deserializer data (internalOptions\<lparr>index := Some index'\<rparr>) = Inr d"
    and rest: "framed deserializer data (internalOptions\<lparr>index := Some index'\<rparr>)
                 (index' + read_size data index') ds"
    by simp_all
  have "deserializeStream_loop deserializer data internalOptions (i + length (d # ds)) docStartIndex i documents
          index'
        = deserializeStream_loop deserializer data (internalOptions\<lparr>index := Some index'\<rparr>)
            (Suc i + length ds) docStartIndex (Suc i) (documents(docStartIndex + i \<mapsto> d))
            (index' + read_size data index')"
    by (subst deserializeStream_loop.simps) (simp add: d Let_def)
  also have "\<dots> = ((\<lambda>j. if docStartIndex + Suc i \<le> j \<and> j < docStartIndex + Suc i + length ds
                        then Some (ds ! (j - (docStartIndex + Suc i)))
                        else (documents(docStartIndex + i \<mapsto> d)) j),
                  Inr (index' + read_size data index'
                       + sum_list (length_prefixes data (index' + read_size data index')
                                     (length ds))))"
    by (rule Cons.IH [OF rest])
  also have "\<dots> = ((\<lambda>j. if docStartIndex + i \<le> j \<and> j < docStartIndex + i + length (d # ds)
                        then Some ((d # ds) ! (j - (docStartIndex + i))) else documents j),
                  Inr (index' + sum_list (length_prefixes data index' (length (d # ds)))))"
    by (auto simp: fun_eq_iff nth_Cons' Suc_diff_le)
  finally show ?case .
qed

lemmas parse_simps = internalDeserialize_def split_document_def
  read_int32_def read_bytes_def read_cstring_def read_string_def read_code_with_scope_def
  parse_scalar_def char_of_byte_def long_of_bytes_def string_size_def or_default_def
  promotes_def stream_options_def no_deserialization_options_def char_of_def bit_Suc_0_iff

lemma read_size_at:
  "read_size [9, 5, 0, 0, 0, 0, 12, 0, 0, 0, 16, 97, 0, 1, 0, 0, 0, 0, 7] 1 = 5"
  "read_size [9, 5, 0, 0, 0, 0, 12, 0, 0, 0, 16, 97, 0, 1, 0, 0, 0, 0, 7] 6 = 12"
  by (simp_all add: read_size_def data_at_def)

lemma size_all_kinds: "calculateObjectSize all_kinds no_options = 379"
  by (simp add: calculateObjectSize_def internalCalculateObjectSize_def no_options_def
      or_default_def all_kinds_def string_size_def dec_digits.simps)

lemma supported_all_kinds:
  "supported_elements (promotes no_deserialization_options) all_kinds"
  by (simp add: all_kinds_def nul_free_def sort_flags_def Timestamp_new_def Long_new_def
      promoted_def Long_bits_def promotes_def no_deserialization_options_def or_default_def)

section \<open>Object graphs with cycles\<close>

lemma concat_results_Inr:
  "concat_results rs = Inr body \<Longrightarrow> r \<in> set rs \<Longrightarrow> \<exists>bs. r = Inr bs"
  by (induction rs arbitrary: body) (auto split: sum.splits)

lemma concat_results_Inl:
  "concat_results rs = Inl e \<Longrightarrow> Inl e \<in> set rs"
  by (induction rs) (auto split: sum.splits)

lemma serializeObject_child:
  assumes ok: "serializeObject h ck sf iu path a = Inr bs"
    and entry: "(k, Ref c) \<in> set (object_entries (h a))"
  shows "a \<notin> set path \<and> \<not> (ck \<and> forbidden_key k)
         \<and> (\<exists>bs'. serializeObject h ck sf iu (a # path) c = Inr bs')"
proof -
  from ok have a: "a \<notin> set path"
    by (subst (asm) serializeObject.simps) (auto split: if_splits)
  let ?f = "\<lambda>(k, v).
      if ck \<and> forbidden_key k then Inl InvalidKey
      else case v of
             Plain pv \<Rightarrow> serializeElement ck sf iu k pv
           | Ref b \<Rightarrow>
               (case serializeObject h ck sf iu (a # path) b of
                  Inl e \<Rightarrow> Inl e
                | Inr bs \<Rightarrow> Inr (element (object_tag (h b)) k bs))"
  from ok a obtain body where "concat_results (map ?f (object_entries (h a))) = Inr body"
    by (subst (asm) serializeObject.simps) (auto split: sum.splits)
  moreover from entry have "?f (k, Ref c) \<in> set (map ?f (object_entries (h a)))"
    unfolding set_map by (rule imageI)
  ultimately obtain r where "?f (k, Ref c) = Inr r"
    using concat_results_Inr by blast
  then show ?thesis
    using a by (auto split: if_splits sum.splits)
qed

lemma edges_entry:
  "(a, c) \<in> edges h \<longleftrightarrow> (\<exists>k. (k, Ref c) \<in> set (object_entries (h a)))"
  by (simp add: edges_def references_def)

lemma serializeObject_reachable_not_ancestor:
  "serializeObject h ck sf iu path a = Inr bs \<Longrightarrow> (a, b) \<in> (edges h)\<^sup>* \<Longrightarrow> b \<notin> set path"
proof (induction h ck sf iu path a arbitrary: bs b rule: serializeObject.induct)
  case (1 h ck sf iu path a)
  from "1.prems"(2) show ?case
  proof (cases rule: converse_rtranclE)
    case base
    with "1.prems"(1) show ?thesis
      by (subst (asm) serializeObject.simps) (auto split: if_splits)
  next
    case (step c)
    then obtain k where entry: "(k, Ref c) \<in> set (object_entries (h a))"
      by (auto simp: edges_entry)
    from serializeObject_child [OF "1.prems"(1) entry]
    obtain bs' where a: "a \<notin> set path" and guard: "\<not> (ck \<and> forbidden_key k)"
      and child: "serializeObject h ck sf iu (a # path) c = Inr bs'"
      by blast
    have "b \<notin> set (a # path)"
      using "1.IH" [OF a entry refl guard refl child step(2)] .
    then show ?thesis by simp
  qed
qed

lemma serializeObject_not_on_cycle:
  assumes ok: "serializeObject h ck sf iu path a = Inr bs"
  shows "(a, a) \<notin> (edges h)\<^sup>+"
proof
  assume "(a, a) \<in> (edges h)\<^sup>+"
  then obtain c where first: "(a, c) \<in> edges h" and return: "(c, a) \<in> (edges h)\<^sup>*"
    by (auto elim: converse_tranclE intro: trancl_into_rtrancl)
  from first obtain k where entry: "(k, Ref c) \<in> set (object_entries (h a))"
    by (auto simp: edges_entry)
  from serializeObject_child [OF ok entry]
  obtain bs' where "serializeObject h ck sf iu (a # path) c = Inr bs'"
    by blast
  from serializeObject_reachable_not_ancestor [OF this return] show False
    by simp
qed

lemma serializeObject_reachable_ok:
  assumes ok: "serializeObject h ck sf iu path a = Inr bs"
    and reach: "(a, b) \<in> (edges h)\<^sup>*"
  shows "\<exists>path' bs'. serializeObject h ck sf iu path' b = Inr bs'"
  using reach
proof (induction rule: rtrancl_induct)
  case base
  with ok show ?case by blast
next
  case (step y z)
  then obtain path' bs' where y: "serializeObject h ck sf iu path' y = Inr bs'"
    by blast
  from step(2) obtain k where "(k, Ref z) \<in> set (object_entries (h y))"
    by (auto simp: edges_entry)
  from serializeObject_child [OF y this] show ?case
    by blast
qed

lemma serializeObject_cyclic_fails:
  assumes "cyclic_from h root"
  shows "\<exists>e. serializeObject h ck sf iu path root = Inl e"
proof (cases "serializeObject h ck sf iu path root")
  case (Inl e)
  then show ?thesis by blast
next
  case (Inr bs)
  from assms obtain a where reach: "(root, a) \<in> (edges h)\<^sup>*" and cyc: "(a, a) \<in> (edges h)\<^sup>+"
    by (auto simp: cyclic_from_def)
  from serializeObject_reachable_ok [OF Inr reach]
  obtain path' bs' where "serializeObject h ck sf iu path' a = Inr bs'"
    by blast
  from serializeObject_not_on_cycle [OF this] cyc show ?thesis
    by simp
qed

lemma serializeObject_error:
  "serializeObject h ck sf iu path a = Inl e \<Longrightarrow> e = CyclicStructure \<or> (e = InvalidKey \<and> ck)"
proof (induction h ck sf iu path a arbitrary: e rule: serializeObject.induct)
  case (1 h ck sf iu path a)
  show ?case
  proof (cases "a \<in> set path")
    case True
    with "1.prems" show ?thesis
      by (subst (asm) serializeObject.simps) simp
  next
    case False
    let ?f = "\<lambda>(k, v).
        if ck \<and> forbidden_key k then Inl InvalidKey
        else case v of
               Plain pv \<Rightarrow> serializeElement ck sf iu k pv
             | Ref b \<Rightarrow>
                 (case serializeObject h ck sf iu (a # path) b of
                    Inl e \<Rightarrow> Inl e
                  | Inr bs \<Rightarrow> Inr (element (object_tag (h b)) k bs))"
    from "1.prems" False have "concat_results (map ?f (object_entries (h a))) = Inl e"
      by (subst (asm) serializeObject.simps) (auto split: sum.splits)
    then have "Inl e \<in> set (map ?f (object_entries (h a)))"
      by (rule concat_results_Inl)
    then obtain k v where entry: "(k, v) \<in> set (object_entries (h a))"
      and failed: "?f (k, v) = Inl e"
      by auto
    show ?thesis
    proof (cases "ck \<and> forbidden_key k")
      case True
      with failed show ?thesis by simp
    next
      case guard: False
      show ?thesis
      proof (cases v)
        case (Plain pv)
        with failed guard have "serializeElement ck sf iu k pv = Inl e"
          by simp
        from serialize_error(1) [OF this] show ?thesis
          by simp
      next
        case (Ref b)
        with failed guard have "serializeObject h ck sf iu (a # path) b = Inl e"
          by (auto split: sum.splits)
        from "1.IH" [OF False entry refl guard Ref this] show ?thesis .
      qed
    qed
  qed
qed

lemma serializeObject_cyclic:
  assumes "cyclic_from h root"
  shows "\<exists>e. serializeObject h ck sf iu path root = Inl e
             \<and> (e = CyclicStructure \<or> (e = InvalidKey \<and> ck))"
  using serializeObject_cyclic_fails [OF assms, of ck sf iu path] serializeObject_error
  by blast

lemma serializeElements_plain:
  "concat_results
     (map (\<lambda>(k, v).
             if ck \<and> forbidden_key k then Inl InvalidKey
             else case v of
                    Plain pv \<Rightarrow> serializeElement ck sf iu k pv
                  | Ref b \<Rightarrow> g k b)
        (map (\<lambda>(k, v). (k, Plain v)) d))
   = serializeElements ck sf iu d"
  by (induction d) (auto split: sum.splits if_splits)

lemma serializeObject_plain_heap:
  "serializeObject (plain_heap d) ck sf iu [] a = serializeDocument ck sf iu d"
  by (subst serializeObject.simps)
    (simp add: plain_heap_def serializeDocument_def serializeElements_plain
      del: map_map)

lemma serialize_graph_plain_heap:
  "serialize_graph st (plain_heap d) a options = serialize st d options"
  "serializeWithBufferAndIndex_graph st (plain_heap d) a finalBuffer options
   = serializeWithBufferAndIndex st d finalBuffer options"
  by (simp_all add: serialize_graph_def serialize_def serializeWithBufferAndIndex_graph_def
      serializeWithBufferAndIndex_def serializeInto_graph_def serializeInto_def [abs_def]
      serializeObject_plain_heap)

lemma serialize_graph_Inl:
  assumes "serializeObject h (or_default (checkKeys options) False)
             (or_default (serializeFunctions options) False)
             (or_default (ignoreUndefined options) True) [] root = Inl e"
  shows "snd (serialize_graph st h root options) = Inl e"
    and "serializeWithBufferAndIndex_graph st h root finalBuffer options
         = (st, finalBuffer, Inl e)"
  using assms
  by (simp_all add: serialize_graph_def serialize_with_def serializeWithBufferAndIndex_graph_def
      serializeWithBufferAndIndex_with_def serializeInto_graph_def Let_def)

lemma cyclic_from_looped: "cyclic_from looped True"
proof -
  have "(True, False) \<in> edges looped" and "(False, True) \<in> edges looped"
    by (simp_all add: edges_def references_def looped_def)
  then have "(True, True) \<in> (edges looped)\<^sup>+"
    by (rule trancl_into_trancl2 [OF _ r_into_trancl])
  then show ?thesis
    unfolding cyclic_from_def by blast
qed

section \<open>The properties\<close>

text \<open>
  Claim C1. A document of the kinds that are written and read back unchanged, nested to
  any depth, is returned by \<^verbatim>\<open>deserialize(serialize(d))\<close>: \<^verbatim>\<open>serialize\<close> returns a buffer,
  and \<^verbatim>\<open>deserialize\<close> of that buffer returns the document. The encoding has to fit the
  internal buffer and a signed 32-bit length prefix; the reader starts at index 0.
\<close>

theorem serialize_deserialize_roundtrip:
  assumes "supported_elements (promotes options') object"
    and "\<not> (or_default (checkKeys options) False \<and> forbidden_in_elements object)"
    and "calculateObjectSize object options < 2 ^ 31"
    and "calculateObjectSize object options \<le> capacity st options"
    and "DeserializationOptions.index options' = None
         \<or> DeserializationOptions.index options' = Some 0"
  shows "\<exists>st' bytes. serialize st object options = (st', Inr bytes)
           \<and> deserialize bytes options' = Inr object"
  using roundtrip_document [OF assms] by blast

theorem serialize_deserialize_roundtrip_witness:
  "(\<exists>st' bytes. serialize initial_state (nested 25) no_options = (st', Inr bytes)
      \<and> deserialize bytes no_deserialization_options = Inr (nested 25))
   \<and> (\<exists>st' bytes. serialize initial_state all_kinds no_options = (st', Inr bytes)
      \<and> deserialize bytes no_deserialization_options = Inr all_kinds)"
proof -
  have size: "calculateObjectSize (nested 25) no_options = 415"
    by (simp add: calculateObjectSize_def internalCalculateObjectSize_def no_options_def
        or_default_def nested_numeral dec_digits.simps)
  have sup: "supported_elements (promotes no_deserialization_options) (nested 25)"
    by (simp add: promotes_def no_deserialization_options_def or_default_def nested_numeral
        nul_free_def)
  have keys: "\<not> (or_default (checkKeys no_options) False \<and> forbidden_in_elements d)" for d
    by (simp add: no_options_def or_default_def)
  have small: "calculateObjectSize (nested 25) no_options < 2 ^ 31"
    by (simp add: size)
  have small': "calculateObjectSize all_kinds no_options < 2 ^ 31"
    by (simp add: size_all_kinds)
  have "415 \<le> MAXSIZE"
    by (simp add: MAXSIZE_def)
  with capacity_initial_state [of no_options]
  have fits: "calculateObjectSize (nested 25) no_options \<le> capacity initial_state no_options"
    and fits': "calculateObjectSize all_kinds no_options \<le> capacity initial_state no_options"
    by (simp_all add: size size_all_kinds)
  have start: "DeserializationOptions.index no_deserialization_options = None
               \<or> DeserializationOptions.index no_deserialization_options = Some 0"
    by (simp add: no_deserialization_options_def)
  show ?thesis
    using serialize_deserialize_roundtrip [OF sup keys small fits start]
      serialize_deserialize_roundtrip [OF supported_all_kinds keys small' fits' start]
    by (rule conjI)
qed

text \<open>
  Claim C2. The buffer that \<^verbatim>\<open>serialize\<close> returns has the length that
  \<^verbatim>\<open>calculateObjectSize\<close> computes for the same document under the same options; and
  \<^verbatim>\<open>serialize\<close> returns a buffer unless \<^verbatim>\<open>checkKeys\<close> rejects a key of the document.
\<close>

theorem serialize_length_is_calculateObjectSize:
  "(\<forall>st' bytes. serialize st object options = (st', Inr bytes)
       \<longrightarrow> length bytes = calculateObjectSize object options)
   \<and> (\<not> (or_default (checkKeys options) False \<and> forbidden_in_elements object)
       \<longrightarrow> (\<exists>st' bytes. serialize st object options = (st', Inr bytes)))"
proof (cases "serializeDocument (or_default (checkKeys options) False)
             (or_default (serializeFunctions options) False)
             (or_default (ignoreUndefined options) True) object")
  case (Inl e)
  from serialize_Inl [OF Inl, of st] serializeDocument_error [OF Inl] show ?thesis
    by auto
next
  case (Inr bs)
  from serialize_Inr [OF Inr, of st] length_serializeDocument [OF Inr] show ?thesis
    by (auto simp: calculateObjectSize_eq)
qed

theorem serialize_length_is_calculateObjectSize_witness:
  "(\<exists>st' bytes. serialize initial_state
        [(''a'', Undefined), (''f'', Function ''x''), (''s'', String ''hi'')]
        (no_options\<lparr>serializeFunctions := Some True, ignoreUndefined := Some False\<rparr>)
      = (st', Inr bytes) \<and> length bytes = 27)
   \<and> calculateObjectSize [(''a'', Undefined), (''f'', Function ''x''), (''s'', String ''hi'')]
        (no_options\<lparr>serializeFunctions := Some True, ignoreUndefined := Some False\<rparr>) = 27
   \<and> calculateObjectSize [(''a'', Undefined), (''f'', Function ''x''), (''s'', String ''hi'')]
        no_options = 15"
  using serialize_length_is_calculateObjectSize [of initial_state
      "[(''a'', Undefined), (''f'', Function ''x''), (''s'', String ''hi'')]"
      "no_options\<lparr>serializeFunctions := Some True, ignoreUndefined := Some False\<rparr>"]
  by (auto simp: no_options_def or_default_def calculateObjectSize_def
      internalCalculateObjectSize_def string_size_def)

text \<open>
  Claim C3, as amended. \<^verbatim>\<open>serializeWithBufferAndIndex\<close> serializes into the module's
  internal buffer, from offset 0, and then copies the encoding into the caller's buffer at
  \<open>startIndex\<close>: after a call that does not fail the internal buffer is the one before the
  call with the encoding written at offset 0. It has the length it had; where the encoding
  fits, its first bytes are the encoding and the bytes after them are unchanged. Whatever
  the internal serializer is, the internal buffer after the call is the buffer that the
  serializer was given, as the serializer left it.
\<close>

theorem serializeWithBufferAndIndex_writes_internal_buffer:
  assumes "serializeDocument (or_default (checkKeys options) False)
             (or_default (serializeFunctions options) False)
             (or_default (ignoreUndefined options) True) object = Inr bs"
  shows "(\<forall>internalSerialize buffer1 r.
            internalSerialize (buffer st) (or_default (checkKeys options) False) 0 0
                (or_default (serializeFunctions options) False)
                (or_default (ignoreUndefined options) True)
              = (buffer1, r)
            \<longrightarrow> buffer (fst (serializeWithBufferAndIndex_with internalSerialize st finalBuffer
                                options))
                = buffer1)
         \<and> buffer (fst (serializeWithBufferAndIndex st object finalBuffer options))
           = Buffer_write (buffer st) 0 bs
         \<and> fst (snd (serializeWithBufferAndIndex st object finalBuffer options))
           = Buffer_copy (Buffer_write (buffer st) 0 bs) finalBuffer
               (or_default (SerializationOptions.index options) 0) 0 (length bs)
         \<and> length (buffer (fst (serializeWithBufferAndIndex st object finalBuffer options)))
           = length (buffer st)
         \<and> (length bs \<le> length (buffer st)
            \<longrightarrow> take (length bs)
                  (buffer (fst (serializeWithBufferAndIndex st object finalBuffer options))) = bs
                \<and> drop (length bs)
                  (buffer (fst (serializeWithBufferAndIndex st object finalBuffer options)))
                  = drop (length bs) (buffer st))"
proof -
  have "buffer (fst (serializeWithBufferAndIndex_with internalSerialize st finalBuffer options))
        = buffer1"
    if "internalSerialize (buffer st) (or_default (checkKeys options) False) 0 0
          (or_default (serializeFunctions options) False)
          (or_default (ignoreUndefined options) True) = (buffer1, r)"
    for internalSerialize buffer1 r
    using that by (cases r) (simp_all add: serializeWithBufferAndIndex_with_def Let_def)
  then show ?thesis
    by (simp add: serializeWithBufferAndIndex_Inr [OF assms] Buffer_write_def)
qed

theorem serializeWithBufferAndIndex_writes_internal_buffer_witness:
  "buffer (fst (serializeWithBufferAndIndex initial_state [] (Buffer_alloc 5) no_options))
     = Buffer_write (buffer initial_state) 0 [5, 0, 0, 0, 0]
   \<and> fst (snd (serializeWithBufferAndIndex initial_state [] (Buffer_alloc 5) no_options))
     = [5, 0, 0, 0, 0]
   \<and> take 5 (buffer (fst (serializeWithBufferAndIndex initial_state [] (Buffer_alloc 5)
                            no_options))) = [5, 0, 0, 0, 0]
   \<and> drop 5 (buffer (fst (serializeWithBufferAndIndex initial_state [] (Buffer_alloc 5)
                            no_options))) = drop 5 (buffer initial_state)"
proof -
  have enc: "serializeDocument (or_default (checkKeys no_options) False)
      (or_default (serializeFunctions no_options) False)
      (or_default (ignoreUndefined no_options) True) [] = Inr [5, 0, 0, 0, 0]"
    by (rule serializeDocument_empty)
  note t = serializeWithBufferAndIndex_writes_internal_buffer
    [OF enc, of initial_state "Buffer_alloc 5", THEN conjunct2]
  have len: "length (buffer initial_state) = MAXSIZE"
    by (simp add: initial_state_def)
  from t have written:
    "buffer (fst (serializeWithBufferAndIndex initial_state [] (Buffer_alloc 5) no_options))
     = Buffer_write (buffer initial_state) 0 [5, 0, 0, 0, 0]"
    by (rule conjunct1)
  from t have
    "fst (snd (serializeWithBufferAndIndex initial_state [] (Buffer_alloc 5) no_options))
     = Buffer_copy (Buffer_write (buffer initial_state) 0 [5, 0, 0, 0, 0]) (Buffer_alloc 5)
         (or_default (SerializationOptions.index no_options) 0) 0 (length [5, 0, 0, 0, 0 :: byte])"
    by blast
  also have "\<dots> = [5, 0, 0, 0, 0]"
    using MAXSIZE_pos
    by (simp add: Buffer_copy_def Buffer_write_def Buffer_alloc_def replicate_numeral len
        no_options_def or_default_def)
  finally have copied:
    "fst (snd (serializeWithBufferAndIndex initial_state [] (Buffer_alloc 5) no_options))
     = [5, 0, 0, 0, 0]" .
  have "take 5 (Buffer_write (buffer initial_state) 0 [5, 0, 0, 0, 0]) = [5, 0, 0, 0, 0]"
    and "drop 5 (Buffer_write (buffer initial_state) 0 [5, 0, 0, 0, 0])
         = drop 5 (buffer initial_state)"
    using MAXSIZE_pos by (simp_all add: Buffer_write_def len numeral_eq_Suc)
  with written copied show ?thesis
    by simp
qed

text \<open>
  The claim as stated fails: from the initial state, serializing the empty document with
  \<^verbatim>\<open>serializeWithBufferAndIndex\<close> changes the internal buffer (its first byte becomes 5).
\<close>

theorem serializeWithBufferAndIndex_internal_buffer_counterexample:
  "buffer (fst (serializeWithBufferAndIndex initial_state [] (Buffer_alloc 5) no_options))
   \<noteq> buffer initial_state"
proof
  assume eq: "buffer (fst (serializeWithBufferAndIndex initial_state [] (Buffer_alloc 5)
                no_options)) = buffer initial_state"
  have "buffer (fst (serializeWithBufferAndIndex initial_state [] (Buffer_alloc 5) no_options))
        = Buffer_write (buffer initial_state) 0 [5, 0, 0, 0, 0]"
    by (simp add: serializeWithBufferAndIndex_Inr [OF serializeDocument_empty])
  with eq have "Buffer_write (Buffer_alloc MAXSIZE) 0 [5, 0, 0, 0, 0] ! 0 = Buffer_alloc MAXSIZE ! 0"
    by (simp add: initial_state_def)
  moreover have "Buffer_write (Buffer_alloc MAXSIZE) 0 [5, 0, 0, 0, 0] ! 0 = 5"
    using MAXSIZE_pos by (simp add: Buffer_write_def)
  moreover have "Buffer_alloc MAXSIZE ! 0 = 0"
    using MAXSIZE_pos by (simp add: Buffer_alloc_def)
  ultimately show False by simp
qed

text \<open>
  Claim C4. For a buffer that holds \<open>numberOfDocuments\<close> documents back to back from
  \<open>startIndex\<close>, each one read by the deserializer under the options of the stream,
  \<^verbatim>\<open>deserializeStream\<close> stores the \<open>i\<close>-th document at \<open>documents[docStartIndex + i]\<close>,
  leaves the other slots as they were, and returns \<open>startIndex\<close> plus the sum of the
  length prefixes of the documents. The loop does so for whatever deserializer it calls,
  and so with the deserializer of the library.
\<close>

theorem deserializeStream_reads_frames:
  "(framed deserializer data (stream_options options) startIndex docs
    \<longrightarrow> deserializeStream_with deserializer data startIndex (length docs) documents
          docStartIndex options
        = ((\<lambda>j. if docStartIndex \<le> j \<and> j < docStartIndex + length docs
                 then Some (docs ! (j - docStartIndex)) else documents j),
           Inr (startIndex + sum_list (length_prefixes data startIndex (length docs)))))
   \<and> (framed internalDeserialize data (stream_options options) startIndex docs
    \<longrightarrow> deserializeStream data startIndex (length docs) documents docStartIndex options
        = ((\<lambda>j. if docStartIndex \<le> j \<and> j < docStartIndex + length docs
                 then Some (docs ! (j - docStartIndex)) else documents j),
           Inr (startIndex + sum_list (length_prefixes data startIndex (length docs)))))"
proof -
  have "deserializeStream_with d data startIndex (length docs) documents docStartIndex options
        = ((\<lambda>j. if docStartIndex \<le> j \<and> j < docStartIndex + length docs
                 then Some (docs ! (j - docStartIndex)) else documents j),
           Inr (startIndex + sum_list (length_prefixes data startIndex (length docs))))"
    if "framed d data (stream_options options) startIndex docs" for d
    using deserializeStream_loop_framed [OF that, of 0 docStartIndex documents]
    by (simp add: deserializeStream_with_def ensureBuffer_def Let_def cong: if_cong)
  then show ?thesis
    by (simp add: deserializeStream_def)
qed

theorem deserializeStream_reads_frames_witness:
  "deserializeStream [9, 5, 0, 0, 0, 0, 12, 0, 0, 0, 16, 97, 0, 1, 0, 0, 0, 0, 7] 1 2
       Map.empty 3 no_deserialization_options
   = ((\<lambda>j. if 3 \<le> j \<and> j < 5 then Some ([[], [(''a'', Int32 1)]] ! (j - 3)) else None),
      Inr 18)"
proof -
  let ?data = "[9, 5, 0, 0, 0, 0, 12, 0, 0, 0, 16, 97, 0, 1, 0, 0, 0, 0, 7] :: byte list"
  have "framed internalDeserialize ?data (stream_options no_deserialization_options) 1
          [[], [(''a'', Int32 1)]]"
    by (simp add: read_size_at) (simp add: parse_simps)
  with deserializeStream_reads_frames
    [of internalDeserialize ?data no_deserialization_options 1 "[[], [(''a'', Int32 1)]]"
      Map.empty 3, THEN conjunct2]
  show ?thesis
    by (simp add: read_size_at numeral_2_eq_2)
qed

text \<open>
  Claim C5. When the serialization does not fail, \<^verbatim>\<open>serializeWithBufferAndIndex\<close> returns
  \<open>startIndex + encodedLength - 1\<close>, where \<open>startIndex\<close> is \<^verbatim>\<open>options.index\<close> (0 by default)
  and \<open>encodedLength\<close> is the end offset that the \<^verbatim>\<open>serializeInto\<close> pass returns, which is
  the size of the document. When the internal buffer and the target have room for the
  encoding, the target holds it at \<open>startIndex\<close> and is unchanged before and after it, so
  the returned index is the index of the last byte written. The first part holds for
  whatever the internal serializer is: the wrapper adds \<open>startIndex - 1\<close> to the end offset
  it returns.
\<close>

theorem serializeWithBufferAndIndex_returns_last_index:
  assumes "\<not> (or_default (checkKeys options) False \<and> forbidden_in_elements object)"
  shows "(\<forall>internalSerialize buffer1 serializationIndex.
            internalSerialize (buffer st) (or_default (checkKeys options) False) 0 0
                (or_default (serializeFunctions options) False)
                (or_default (ignoreUndefined options) True)
              = (buffer1, Inr serializationIndex)
            \<longrightarrow> snd (snd (serializeWithBufferAndIndex_with internalSerialize st finalBuffer
                             options))
                = Inr (int (or_default (SerializationOptions.index options) 0)
                       + int serializationIndex - 1))
         \<and> (\<exists>st' finalBuffer' buffer1.
           serializeInto (buffer st) object (or_default (checkKeys options) False) 0 0
               (or_default (serializeFunctions options) False)
               (or_default (ignoreUndefined options) True)
             = (buffer1, Inr (calculateObjectSize object options))
           \<and> serializeWithBufferAndIndex st object finalBuffer options
             = (st', finalBuffer',
                Inr (int (or_default (SerializationOptions.index options) 0)
                     + int (calculateObjectSize object options) - 1))
           \<and> (calculateObjectSize object options \<le> length (buffer st)
                \<and> or_default (SerializationOptions.index options) 0
                    + calculateObjectSize object options \<le> length finalBuffer
              \<longrightarrow> take (or_default (SerializationOptions.index options) 0) finalBuffer'
                    = take (or_default (SerializationOptions.index options) 0) finalBuffer
                  \<and> Inr (take (calculateObjectSize object options)
                            (drop (or_default (SerializationOptions.index options) 0)
                               finalBuffer'))
                    = serializeDocument (or_default (checkKeys options) False)
                        (or_default (serializeFunctions options) False)
                        (or_default (ignoreUndefined options) True) object
                  \<and> drop (or_default (SerializationOptions.index options) 0
                           + calculateObjectSize object options) finalBuffer'
                    = drop (or_default (SerializationOptions.index options) 0
                            + calculateObjectSize object options) finalBuffer))"
proof -
  from serializeDocument_succeeds [OF assms]
  obtain bs where enc: "serializeDocument (or_default (checkKeys options) False)
      (or_default (serializeFunctions options) False)
      (or_default (ignoreUndefined options) True) object = Inr bs"
    by blast
  have len: "length bs = calculateObjectSize object options"
    using length_serializeDocument [OF enc] by (simp add: calculateObjectSize_eq)
  have copy: "Buffer_copy (Buffer_write (buffer st) 0 bs) finalBuffer i 0 (length bs)
              = take i finalBuffer @ bs @ drop (i + length bs) finalBuffer"
    if "length bs \<le> length (buffer st)" "i + length bs \<le> length finalBuffer" for i
    using that by (simp add: Buffer_copy_def Buffer_write_def)
  have "\<exists>st' finalBuffer' buffer1.
           serializeInto (buffer st) object (or_default (checkKeys options) False) 0 0
               (or_default (serializeFunctions options) False)
               (or_default (ignoreUndefined options) True)
             = (buffer1, Inr (calculateObjectSize object options))
           \<and> serializeWithBufferAndIndex st object finalBuffer options
             = (st', finalBuffer',
                Inr (int (or_default (SerializationOptions.index options) 0)
                     + int (calculateObjectSize object options) - 1))
           \<and> (calculateObjectSize object options \<le> length (buffer st)
                \<and> or_default (SerializationOptions.index options) 0
                    + calculateObjectSize object options \<le> length finalBuffer
              \<longrightarrow> take (or_default (SerializationOptions.index options) 0) finalBuffer'
                    = take (or_default (SerializationOptions.index options) 0) finalBuffer
                  \<and> Inr (take (calculateObjectSize object options)
                            (drop (or_default (SerializationOptions.index options) 0)
                               finalBuffer'))
                    = serializeDocument (or_default (checkKeys options) False)
                        (or_default (serializeFunctions options) False)
                        (or_default (ignoreUndefined options) True) object
                  \<and> drop (or_default (SerializationOptions.index options) 0
                           + calculateObjectSize object options) finalBuffer'
                    = drop (or_default (SerializationOptions.index options) 0
                            + calculateObjectSize object options) finalBuffer)"
    using serializeInto_Inr [OF enc, of "buffer st" 0 0]
      serializeWithBufferAndIndex_Inr [OF enc, of st finalBuffer]
    by (auto simp: len [symmetric] enc copy)
  then show ?thesis
    by (simp add: serializeWithBufferAndIndex_with_Inr)
qed

theorem serializeWithBufferAndIndex_returns_last_index_witness:
  "\<exists>st' finalBuffer' buffer1.
     serializeInto (buffer initial_state) [(''a'', Int32 1)] False 0 0 False True
       = (buffer1, Inr 12)
     \<and> serializeWithBufferAndIndex initial_state [(''a'', Int32 1)] (Buffer_alloc 20)
          (no_options\<lparr>SerializationOptions.index := Some 3\<rparr>)
       = (st', finalBuffer', Inr 14)
     \<and> take 3 finalBuffer' = [0, 0, 0]
     \<and> take 12 (drop 3 finalBuffer') = [12, 0, 0, 0, 16, 97, 0, 1, 0, 0, 0, 0]
     \<and> drop 15 finalBuffer' = [0, 0, 0, 0, 0]"
  using serializeWithBufferAndIndex_returns_last_index
    [of "no_options\<lparr>SerializationOptions.index := Some 3\<rparr>" "[(''a'', Int32 1)]" initial_state "Buffer_alloc 20",
      THEN conjunct2]
  by (simp add: no_options_def or_default_def calculateObjectSize_def
      internalCalculateObjectSize_def initial_state_def MAXSIZE_def serializeDocument_def
      frame_def int32_bytes_def element_def cstring_def byte_of_char_def le_bytes_numeral
      forbidden_key_def Buffer_alloc_def [of 20] replicate_numeral)

text \<open>
  Claim C6. A document with a key that starts with \<^verbatim>\<open>$\<close> or holds a \<^verbatim>\<open>.\<close>, at any depth:
  with \<^verbatim>\<open>checkKeys\<close> set, \<^verbatim>\<open>serialize\<close> and \<^verbatim>\<open>serializeWithBufferAndIndex\<close> fail with
  \<open>InvalidKey\<close>, an error of the class InvalidValue; with \<^verbatim>\<open>checkKeys\<close> unset or false
  both return, the buffer of \<^verbatim>\<open>serialize\<close> has the size of the document, and (for a
  document that is read back at all) \<^verbatim>\<open>deserialize\<close> returns the document, with its keys
  as they were.
\<close>

theorem checkKeys_rejects_forbidden_keys:
  assumes "forbidden_in_elements object"
  shows "snd (serialize st object (options\<lparr>checkKeys := Some True\<rparr>)) = Inl InvalidKey
         \<and> snd (snd (serializeWithBufferAndIndex st object finalBuffer
                        (options\<lparr>checkKeys := Some True\<rparr>))) = Inl InvalidKey
         \<and> error_class_of InvalidKey = InvalidValue
         \<and> (checkKeys options = None \<or> checkKeys options = Some False
            \<longrightarrow> (\<exists>st' bytes.
                    serialize st object options = (st', Inr bytes)
                    \<and> length bytes = calculateObjectSize object options
                    \<and> (supported_elements (promotes options') object
                        \<and> calculateObjectSize object options < 2 ^ 31
                        \<and> calculateObjectSize object options \<le> capacity st options
                        \<and> (DeserializationOptions.index options' = None
                            \<or> DeserializationOptions.index options' = Some 0)
                       \<longrightarrow> deserialize bytes options' = Inr object))
                \<and> (\<exists>st' finalBuffer' r.
                      serializeWithBufferAndIndex st object finalBuffer options
                      = (st', finalBuffer', Inr r)))"
proof -
  let ?strict = "options\<lparr>checkKeys := Some True\<rparr>"
  have fails: "serializeDocument (or_default (checkKeys ?strict) False)
      (or_default (serializeFunctions ?strict) False)
      (or_default (ignoreUndefined ?strict) True) object = Inl InvalidKey"
    using assms by (simp add: serializeDocument_forbidden or_default_def)
  have a: "snd (serialize st object ?strict) = Inl InvalidKey"
    by (rule serialize_Inl [OF fails])
  have b: "snd (snd (serializeWithBufferAndIndex st object finalBuffer ?strict)) = Inl InvalidKey"
    by (simp add: serializeWithBufferAndIndex_Inl [OF fails])
  have c: "(\<exists>st' bytes.
              serialize st object options = (st', Inr bytes)
              \<and> length bytes = calculateObjectSize object options
              \<and> (supported_elements (promotes options') object
                  \<and> calculateObjectSize object options < 2 ^ 31
                  \<and> calculateObjectSize object options \<le> capacity st options
                  \<and> (DeserializationOptions.index options' = None
                      \<or> DeserializationOptions.index options' = Some 0)
                 \<longrightarrow> deserialize bytes options' = Inr object))
           \<and> (\<exists>st' finalBuffer' r.
                 serializeWithBufferAndIndex st object finalBuffer options
                 = (st', finalBuffer', Inr r))"
    if lax: "checkKeys options = None \<or> checkKeys options = Some False"
  proof -
    from lax have keys: "\<not> (or_default (checkKeys options) False \<and> forbidden_in_elements object)"
      by (auto simp: or_default_def)
    from serializeDocument_succeeds [OF keys]
    obtain bs where enc: "serializeDocument (or_default (checkKeys options) False)
        (or_default (serializeFunctions options) False)
        (or_default (ignoreUndefined options) True) object = Inr bs"
      by blast
    have len: "length bs = calculateObjectSize object options"
      using length_serializeDocument [OF enc] by (simp add: calculateObjectSize_eq)
    from serialize_Inr [OF enc, of st]
    obtain st' bytes where ser: "serialize st object options = (st', Inr bytes)"
      and bytes: "length bytes = calculateObjectSize object options"
      using len by auto
    have "deserialize bytes options' = Inr object"
      if "supported_elements (promotes options') object"
        "calculateObjectSize object options < 2 ^ 31"
        "calculateObjectSize object options \<le> capacity st options"
        "DeserializationOptions.index options' = None
         \<or> DeserializationOptions.index options' = Some 0"
      using roundtrip_document [OF that(1) keys that(2) that(3) that(4)] ser by auto
    with ser bytes serializeWithBufferAndIndex_Inr [OF enc, of st finalBuffer] show ?thesis
      by auto
  qed
  from a b c show ?thesis
    by simp
qed

theorem checkKeys_rejects_forbidden_keys_witness:
  "snd (serialize initial_state [(''$bad'', Int32 1), (''a.b'', Int32 2)]
          (no_options\<lparr>checkKeys := Some True\<rparr>)) = Inl InvalidKey
   \<and> snd (snd (serializeWithBufferAndIndex initial_state [(''$bad'', Int32 1), (''a.b'', Int32 2)]
                  (Buffer_alloc 32) (no_options\<lparr>checkKeys := Some True\<rparr>))) = Inl InvalidKey
   \<and> (\<exists>st' bytes.
         serialize initial_state [(''$bad'', Int32 1), (''a.b'', Int32 2)] no_options
           = (st', Inr bytes)
         \<and> length bytes = 24
         \<and> deserialize bytes no_deserialization_options
           = Inr [(''$bad'', Int32 1), (''a.b'', Int32 2)])
   \<and> (\<exists>st' finalBuffer' r.
         serializeWithBufferAndIndex initial_state [(''$bad'', Int32 1), (''a.b'', Int32 2)]
           (Buffer_alloc 32) no_options = (st', finalBuffer', Inr r))"
proof -
  let ?d = "[(''$bad'', Int32 1), (''a.b'', Int32 2)]"
  have forbidden: "forbidden_in_elements ?d"
    by (simp add: forbidden_key_def)
  have lax: "checkKeys no_options = None \<or> checkKeys no_options = Some False"
    by (simp add: no_options_def)
  have size: "calculateObjectSize ?d no_options = 24"
    by (simp add: calculateObjectSize_def internalCalculateObjectSize_def no_options_def
        or_default_def)
  have "24 \<le> MAXSIZE"
    by (simp add: MAXSIZE_def)
  with capacity_initial_state [of no_options]
  have conds: "supported_elements (promotes no_deserialization_options) ?d
      \<and> calculateObjectSize ?d no_options < 2 ^ 31
      \<and> calculateObjectSize ?d no_options \<le> capacity initial_state no_options
      \<and> (DeserializationOptions.index no_deserialization_options = None
          \<or> DeserializationOptions.index no_deserialization_options = Some 0)"
    by (simp add: size nul_free_def no_deserialization_options_def)
  show ?thesis
    using checkKeys_rejects_forbidden_keys
      [OF forbidden, of initial_state no_options "Buffer_alloc 32" no_deserialization_options]
      lax conds
    by (auto simp: size)
qed

text \<open>
  Claim C7. Every Timestamp has \<^verbatim>\<open>unsigned == true\<close>, however it is constructed (with no
  argument, from a pair in or out of range, from another Timestamp or a signed or unsigned
  \<^verbatim>\<open>Long\<close>). For the maximal pair \<^verbatim>\<open>{t: 0xffffffff, i: 0xffffffff}\<close>, \<^verbatim>\<open>toString()\<close> is
  \<^verbatim>\<open>"18446744073709551615"\<close> and \<^verbatim>\<open>toJSON()\<close> is that string under \<^verbatim>\<open>$timestamp\<close>; the pair
  \<^verbatim>\<open>{t: -1, i: -1}\<close> wraps to the same Timestamp; and \<^verbatim>\<open>Timestamp.MAX_VALUE\<close> is
  \<^verbatim>\<open>Long.MAX_UNSIGNED_VALUE\<close>, the number \<open>2 ^ 64 - 1\<close>.
\<close>

theorem timestamp_always_unsigned:
  "unsigned (Timestamp_new src)
   \<and> Long_toString (Timestamp_new (TimeIncrement 0xffffffff 0xffffffff))
       = ''18446744073709551615''
   \<and> Timestamp_toJSON (Timestamp_new (TimeIncrement 0xffffffff 0xffffffff))
       = JObject [(''$timestamp'', JString ''18446744073709551615'')]
   \<and> Timestamp_new (TimeIncrement (- 1) (- 1)) = Timestamp_new (TimeIncrement 0xffffffff 0xffffffff)
   \<and> Timestamp_new (TimeIncrement 0xffffffff 0xffffffff) = Timestamp_MAX_VALUE
   \<and> Timestamp_MAX_VALUE = Long_MAX_UNSIGNED_VALUE
   \<and> Long_toNumber Timestamp_MAX_VALUE = 2 ^ 64 - 1"
proof -
  have u: "unsigned (Timestamp_new src)"
    by (cases src) (simp_all add: Timestamp_new_def Long_new_def)
  have m: "Timestamp_new (TimeIncrement 0xffffffff 0xffffffff) = Timestamp_MAX_VALUE"
    by (simp add: Timestamp_new_def Timestamp_MAX_VALUE_def Long_MAX_UNSIGNED_VALUE_def
        Long_new_def)
  have w: "Timestamp_new (TimeIncrement (- 1) (- 1)) = Timestamp_MAX_VALUE"
    by (simp add: Timestamp_new_def Timestamp_MAX_VALUE_def Long_MAX_UNSIGNED_VALUE_def
        Long_new_def)
  have n: "Long_toNumber Timestamp_MAX_VALUE = 2 ^ 64 - 1"
    by (simp add: Long_toNumber_def Timestamp_MAX_VALUE_def Long_bits_MAX_UNSIGNED_VALUE
        Long_MAX_UNSIGNED_VALUE_def [THEN arg_cong, of unsigned]
        unsigned_minus_1_eq_mask mask_eq_exp_minus_1)
  have s: "Long_toString Timestamp_MAX_VALUE = ''18446744073709551615''"
    by (simp add: Long_toString_def n Number_toString_def dec_digits.simps digit_char_def)
  show ?thesis
    by (simp add: u m w n s Timestamp_toJSON_def) (simp add: Timestamp_MAX_VALUE_def)
qed

theorem timestamp_always_unsigned_witness:
  "unsigned (Timestamp_new NoArgument)
   \<and> unsigned (Timestamp_new (TimeIncrement 0xff 0xffffffff))
   \<and> unsigned (Timestamp_new (TimeIncrement 0xffffffff 0xffffffff))
   \<and> unsigned (Timestamp_new (TimeIncrement (- 1) (- 1)))
   \<and> unsigned (Timestamp_new (FromLong (Timestamp_new (TimeIncrement 0xffffffff 0xffffffff))))
   \<and> unsigned (Timestamp_new (FromLong (Long_new 0xffffffff 0xfffffffff False)))
   \<and> unsigned (Timestamp_new (FromLong (Long_new 0xffffffff 0xfffffffff True)))"
  using timestamp_always_unsigned [of NoArgument]
    timestamp_always_unsigned [of "TimeIncrement 0xff 0xffffffff"]
    timestamp_always_unsigned [of "TimeIncrement 0xffffffff 0xffffffff"]
    timestamp_always_unsigned [of "TimeIncrement (- 1) (- 1)"]
    timestamp_always_unsigned
      [of "FromLong (Timestamp_new (TimeIncrement 0xffffffff 0xffffffff))"]
    timestamp_always_unsigned [of "FromLong (Long_new 0xffffffff 0xfffffffff False)"]
    timestamp_always_unsigned [of "FromLong (Long_new 0xffffffff 0xfffffffff True)"]
  by blast

text \<open>
  Claim C8. For an object graph with a cycle that can be reached from the object handed
  to the serializer, \<^verbatim>\<open>serialize\<close> and \<^verbatim>\<open>serializeWithBufferAndIndex\<close> return, and both fail
  with the same error: \<open>CyclicStructure\<close>, an error of the class StructuralError, unless
  \<^verbatim>\<open>checkKeys\<close> is set and the key check rejects a key first. The serializer is a total
  function: its recursion carries the path of the ancestors and ends on every heap.
\<close>

theorem cyclic_document_fails:
  assumes "cyclic_from h root"
  shows "\<exists>e. snd (serialize_graph st h root options) = Inl e
             \<and> snd (snd (serializeWithBufferAndIndex_graph st h root finalBuffer options)) = Inl e
             \<and> fst (snd (serializeWithBufferAndIndex_graph st h root finalBuffer options))
               = finalBuffer
             \<and> (e = CyclicStructure \<or> (e = InvalidKey \<and> or_default (checkKeys options) False))
             \<and> (checkKeys options = None \<or> checkKeys options = Some False
                \<longrightarrow> e = CyclicStructure)
             \<and> error_class_of CyclicStructure = StructuralError"
proof -
  from serializeObject_cyclic [OF assms]
  obtain e where failed: "serializeObject h (or_default (checkKeys options) False)
             (or_default (serializeFunctions options) False)
             (or_default (ignoreUndefined options) True) [] root = Inl e"
    and which: "e = CyclicStructure \<or> (e = InvalidKey \<and> or_default (checkKeys options) False)"
    by blast
  from which have "e = CyclicStructure"
    if "checkKeys options = None \<or> checkKeys options = Some False"
    using that by (auto simp: or_default_def)
  with serialize_graph_Inl(1) [OF failed, of st]
    serialize_graph_Inl(2) [OF failed, of st finalBuffer] which show ?thesis
    by auto
qed

theorem cyclic_document_fails_witness:
  "snd (serialize_graph initial_state looped True no_options) = Inl CyclicStructure
   \<and> snd (snd (serializeWithBufferAndIndex_graph initial_state looped True (Buffer_alloc 8)
                  no_options)) = Inl CyclicStructure
   \<and> fst (snd (serializeWithBufferAndIndex_graph initial_state looped True (Buffer_alloc 8)
                  no_options)) = Buffer_alloc 8
   \<and> error_class_of CyclicStructure = StructuralError
   \<and> serializeObject shared False False True [] True
     = Inr [35, 0, 0, 0,
            3, 120, 0, 12, 0, 0, 0, 16, 97, 0, 1, 0, 0, 0, 0,
            3, 121, 0, 12, 0, 0, 0, 16, 97, 0, 1, 0, 0, 0, 0,
            0]"
proof -
  have "serializeObject shared False False True [] True
     = Inr [35, 0, 0, 0,
            3, 120, 0, 12, 0, 0, 0, 16, 97, 0, 1, 0, 0, 0, 0,
            3, 121, 0, 12, 0, 0, 0, 16, 97, 0, 1, 0, 0, 0, 0,
            0]"
    by (simp add: serializeObject.simps shared_def frame_def element_def cstring_def
        int32_bytes_def byte_of_char_def le_bytes_numeral)
  moreover have "checkKeys no_options = None \<or> checkKeys no_options = Some False"
    by (simp add: no_options_def)
  ultimately show ?thesis
    using cyclic_document_fails [OF cyclic_from_looped, of initial_state no_options
        "Buffer_alloc 8"]
    by auto
qed

text \<open>
  Claim C9. In canonical mode (no options, or the \<^verbatim>\<open>relaxed\<close> flag absent or false)
  \<^verbatim>\<open>MinKey.toExtendedJSON()\<close> is \<^verbatim>\<open>{$minKey: 1}\<close>, \<^verbatim>\<open>MaxKey.toExtendedJSON()\<close> is
  \<^verbatim>\<open>{$maxKey: 1}\<close> and \<^verbatim>\<open>Int32.toExtendedJSON()\<close> is the single-entry object
  \<^verbatim>\<open>{$numberInt: s}\<close> with \<open>s\<close> the decimal string of the value (reading \<open>s\<close> as a decimal
  literal gives the value back); in relaxed mode \<^verbatim>\<open>Int32.toExtendedJSON()\<close> is the plain
  number.
\<close>

theorem toExtendedJSON_canonical_relaxed:
  "MinKey_toExtendedJSON mn = JObject [(''$minKey'', JNumber 1)]
   \<and> MaxKey_toExtendedJSON mx = JObject [(''$maxKey'', JNumber 1)]
   \<and> Int32_toExtendedJSON i None
       = JObject [(''$numberInt'', JString (Number_toString (value' i)))]
   \<and> Int32_toExtendedJSON i (Some \<lparr>relaxed = None\<rparr>)
       = JObject [(''$numberInt'', JString (Number_toString (value' i)))]
   \<and> Int32_toExtendedJSON i (Some \<lparr>relaxed = Some False\<rparr>)
       = JObject [(''$numberInt'', JString (Number_toString (value' i)))]
   \<and> Int32_toExtendedJSON i (Some \<lparr>relaxed = Some True\<rparr>) = JNumber (value' i)
   \<and> parseInt (Number_toString (value' i)) = value' i"
  by (simp add: MinKey_toExtendedJSON_def MaxKey_toExtendedJSON_def Int32_toExtendedJSON_def
      or_default_def parseInt_Number_toString)

theorem toExtendedJSON_canonical_relaxed_witness:
  "MinKey_toExtendedJSON MinKey_new = JObject [(''$minKey'', JNumber 1)]
   \<and> MaxKey_toExtendedJSON MaxKey_new = JObject [(''$maxKey'', JNumber 1)]
   \<and> Int32_toExtendedJSON (Int32_new (- 42)) None = JObject [(''$numberInt'', JString ''-42'')]
   \<and> Int32_toExtendedJSON (Int32_new (- 42)) (Some \<lparr>relaxed = Some False\<rparr>)
       = JObject [(''$numberInt'', JString ''-42'')]
   \<and> Int32_toExtendedJSON (Int32_new (- 42)) (Some \<lparr>relaxed = Some True\<rparr>) = JNumber (- 42)"
  using toExtendedJSON_canonical_relaxed [where mn = MinKey_new and mx = MaxKey_new
      and i = "Int32_new (- 42)"]
  by (simp add: Int32_new_def Number_toString_def dec_digits.simps digit_char_def)

text \<open>
  Claim C10. The length of the internal serialization buffer never decreases, over any run
  of calls from any state: \<^verbatim>\<open>setInternalBufferSize(size)\<close> leaves a buffer of the larger of
  the two lengths and changes nothing when \<open>size\<close> does not exceed the current length;
  \<^verbatim>\<open>serialize\<close> leaves a buffer of the larger of the current length and
  \<^verbatim>\<open>minInternalBufferSize\<close>; \<^verbatim>\<open>serializeWithBufferAndIndex\<close> keeps the length.
\<close>

theorem internal_buffer_never_shrinks:
  "length (buffer st) \<le> length (buffer (foldl api_step st calls))
   \<and> length (buffer (setInternalBufferSize n st)) = max (length (buffer st)) n
   \<and> (n \<le> length (buffer st) \<longrightarrow> setInternalBufferSize n st = st)
   \<and> length (buffer (fst (serialize st object options)))
       = max (length (buffer st)) (or_default (minInternalBufferSize options) MAXSIZE)
   \<and> length (buffer (fst (serializeWithBufferAndIndex st object finalBuffer options)))
       = length (buffer st)"
  by (simp add: length_buffer_run length_buffer_setInternalBufferSize length_buffer_serialize
      length_buffer_serializeWithBufferAndIndex setInternalBufferSize_def)

theorem internal_buffer_never_shrinks_witness:
  "length (buffer initial_state)
     \<le> length (buffer (foldl api_step initial_state
           [SetInternalBufferSize 10, Serialize [] no_options,
            SerializeWithBufferAndIndex [] (Buffer_alloc 8) no_options,
            SetInternalBufferSize (MAXSIZE + 1)]))
   \<and> length (buffer (setInternalBufferSize 10 initial_state)) = MAXSIZE
   \<and> setInternalBufferSize 10 initial_state = initial_state
   \<and> length (buffer (fst (serialize initial_state [] no_options))) = MAXSIZE
   \<and> length (buffer (fst (serializeWithBufferAndIndex initial_state [] (Buffer_alloc 8)
                             no_options))) = MAXSIZE"
proof -
  have a: "length (buffer initial_state) = MAXSIZE"
    by (simp add: initial_state_def)
  have b: "or_default (minInternalBufferSize no_options) MAXSIZE = MAXSIZE"
    by (simp add: no_options_def or_default_def)
  have c: "(10::nat) \<le> MAXSIZE"
    by (simp add: MAXSIZE_def)
  show ?thesis
    using internal_buffer_never_shrinks [of initial_state
        "[SetInternalBufferSize 10, Serialize [] no_options,
          SerializeWithBufferAndIndex [] (Buffer_alloc 8) no_options,
          SetInternalBufferSize (MAXSIZE + 1)]" 10 "[]" no_options "Buffer_alloc 8"] c
    by (auto simp: a b max_def)
qed

end
